theory Spec2Isabelle
  imports Complex_Main
begin

section \<open>Simulated annealing (simanneal/anneal.py)\<close>

text \<open>
  A shallow embedding of \<^verbatim>\<open>simanneal/anneal.py\<close>. Conventions:
  \<^item> Python floats are idealised as \<open>real\<close> (no rounding, overflow or NaN); Python ints
    are \<open>int\<close>.
  \<^item> An exception is the value \<open>Inl e\<close>; every function that can raise returns a sum.
  \<^item> The annealer object, the trace files, the log of progress updates and the two
    sources of nondeterminism (\<^verbatim>\<open>random.random()\<close>, \<^verbatim>\<open>time.time()\<close>) live in one
    environment record that is passed through every function. The two sources are
    oracles: the \<open>n\<close>-th call returns the \<open>n\<close>-th value of a given sequence.
  \<^item> States are values. The three duplication operations of \<^verbatim>\<open>copy_state\<close> therefore
    return the value itself; aliasing between a state and its copy is not represented.
  \<^item> The hooks of a subclass act on the working state and on the data the subclass
    keeps beside it, not on the fields of the base class: \<^verbatim>\<open>move\<close> changes both and
    returns the energy delta, \<^verbatim>\<open>energy\<close> reads them, \<^verbatim>\<open>revert\<close> changes the side data.
    A hook that raises leaves both as they were when it was called.
  \<^item> \<^verbatim>\<open>open\<close> and \<^verbatim>\<open>write\<close> succeed; \<^verbatim>\<open>log.debug\<close> output is not modelled, a progress
    update is kept as the tuple of its arguments.
\<close>

subsection \<open>Exceptions\<close>

datatype pyexn =
    RuntimeError
  | AttributeError
  | TypeError
  | ValueError
  | ZeroDivisionError
  | PyException
  | HookError string

subsection \<open>AnnealerParams\<close>

record AnnealerParams =
  steps :: int
  tmax :: real
  tmin :: real
  copy_strategy :: string
  pos :: int
  updates :: int
  output_file :: string

text \<open>The dataclass defaults: \<^verbatim>\<open>AnnealerParams(steps, tmax, tmin)\<close>.\<close>

definition mk_params :: "int \<Rightarrow> real \<Rightarrow> real \<Rightarrow> AnnealerParams" where
  "mk_params n hi lo =
     \<lparr>steps = n, tmax = hi, tmin = lo, copy_strategy = ''deepcopy'', pos = 0,
      updates = 100, output_file = ''''\<rparr>"

subsection \<open>Rounding and formatting\<close>

text \<open>Python 3 \<^verbatim>\<open>round(x)\<close>: to the nearest integer, ties to the even one.\<close>

definition py_round :: "real \<Rightarrow> int" where
  "py_round x =
     (let n = \<lfloor>x\<rfloor>; d = x - of_int n
      in if d < 1 / 2 then n
         else if 1 / 2 < d then n + 1
         else if even n then n else n + 1)"

text \<open>\<^verbatim>\<open>round(x, k)\<close>: to \<open>k\<close> decimal places, \<open>k\<close> possibly negative.\<close>

definition py_round_nd :: "real \<Rightarrow> int \<Rightarrow> real" where
  "py_round_nd x k =
     (if 0 \<le> k then of_int (py_round (x * 10 ^ nat k)) / 10 ^ nat k
      else of_int (py_round (x / 10 ^ nat (- k))) * 10 ^ nat (- k))"

fun digits_nat :: "nat \<Rightarrow> string" where
  "digits_nat n =
     (if n < 10 then [''0123456789'' ! n]
      else digits_nat (n div 10) @ [''0123456789'' ! (n mod 10)])"

declare digits_nat.simps [simp del]

text \<open>
  The conversions \<^verbatim>\<open>%<w>i\<close> (pad with blanks on the left) and \<^verbatim>\<open>%0<w>i\<close> (pad with
  zeros after the sign) of Python's \<^verbatim>\<open>%\<close> operator.
\<close>

definition fmt_i :: "nat \<Rightarrow> bool \<Rightarrow> int \<Rightarrow> string" where
  "fmt_i w zero n =
     (let sgn = (if n < 0 then ''-'' else '''');
          ds = digits_nat (nat \<bar>n\<bar>);
          padn = w - (length sgn + length ds)
      in if zero then sgn @ replicate padn (CHR ''0'') @ ds
         else replicate padn (CHR '' '') @ sgn @ ds)"

text \<open>
  \<^verbatim>\<open>
  def time_string(seconds):
      s = int(round(seconds))
      h, s = divmod(s, 3600)
      m, s = divmod(s, 60)
      return "%4i:%02i:%02i" % (h, m, s)
  \<close>
\<close>

definition time_string :: "real \<Rightarrow> string" where
  "time_string seconds =
     (let s0 = py_round seconds;
          h = s0 div 3600; s1 = s0 mod 3600;
          m = s1 div 60; s2 = s1 mod 60
      in fmt_i 4 False h @ '':'' @ fmt_i 2 True m @ '':'' @ fmt_i 2 True s2)"

subsection \<open>The annealer object and its environment\<close>

text \<open>
  The fields \<^verbatim>\<open>Annealer.__init__\<close> sets, and \<open>side\<close>: whatever else a subclass keeps
  on the object.
\<close>

record ('s, 'x) Annealer =
  params :: AnnealerParams
  best_state :: "'s option"
  best_energy :: "real option"
  start :: "real option"
  state :: 's
  side :: 'x

text \<open>
  What a subclass defines. \<^verbatim>\<open>move\<close> changes the state (and the side data) and returns
  the energy delta, \<^verbatim>\<open>energy\<close> reads them. The base class defines neither a method
  \<^verbatim>\<open>revert\<close> nor an attribute \<^verbatim>\<open>updates\<close>: they exist only where a subclass
  provides them, so both are optional here and looking up a missing one raises
  \<^verbatim>\<open>AttributeError\<close>.
\<close>

record ('s, 'x) Problem =
  move :: "'s \<Rightarrow> 'x \<Rightarrow> pyexn + (real \<times> 's \<times> 'x)"
  energy :: "'s \<Rightarrow> 'x \<Rightarrow> pyexn + real"
  revert :: "('s \<Rightarrow> 'x \<Rightarrow> pyexn + 'x) option"
  updates_attr :: "int option"

text \<open>What is written to the trace file, one value per \<^verbatim>\<open>f.write\<close> call.\<close>

datatype chunk =
    Header
  | StepFields int real real real
  | BestField real
  | AcceptedField bool

text \<open>
  A file object: its path, what has been written to it, and whether \<^verbatim>\<open>close()\<close> has been
  called on it. Nothing in the module calls it; what the runtime does to a file object
  that is no longer referenced is not modelled.
\<close>

record tracefile =
  path :: string
  written :: "chunk list"
  closed :: bool

type_synonym event = "int \<times> real \<times> real \<times> real option \<times> real option"

record ('s, 'x) Env =
  self :: "('s, 'x) Annealer"
  files :: "tracefile list"
  progress :: "event list"
  draws :: nat
  ticks :: nat
  rnd :: "nat \<Rightarrow> real"
  clock :: "nat \<Rightarrow> real"

definition random_random :: "('s, 'x) Env \<Rightarrow> real \<times> ('s, 'x) Env" where
  "random_random env = (rnd env (draws env), env\<lparr>draws := draws env + 1\<rparr>)"

definition time_time :: "('s, 'x) Env \<Rightarrow> real \<times> ('s, 'x) Env" where
  "time_time env = (clock env (ticks env), env\<lparr>ticks := ticks env + 1\<rparr>)"

text \<open>\<^verbatim>\<open>open(path, "w")\<close> creates a new open file object; its handle is its index.\<close>

definition py_open :: "string \<Rightarrow> ('s, 'x) Env \<Rightarrow> nat \<times> ('s, 'x) Env" where
  "py_open p env =
     (length (files env),
      env\<lparr>files := files env @ [\<lparr>path = p, written = [], closed = False\<rparr>]\<rparr>)"

definition f_write :: "nat \<Rightarrow> chunk \<Rightarrow> ('s, 'x) Env \<Rightarrow> ('s, 'x) Env" where
  "f_write h c env =
     env\<lparr>files := (files env)[h := (files env ! h)\<lparr>written := written (files env ! h) @ [c]\<rparr>]\<rparr>"

text \<open>
  What an observer of the file system sees of the files opened so far: the path of each
  and whether it has been closed.
\<close>

definition file_status :: "('s, 'x) Env \<Rightarrow> (string \<times> bool) list" where
  "file_status env = map (\<lambda>t. (path t, closed t)) (files env)"

subsection \<open>copy\_state\<close>

definition deepcopy :: "'s \<Rightarrow> 's" where
  "deepcopy st = st"

definition slice_copy :: "'s \<Rightarrow> 's" where
  "slice_copy st = st"

definition method_copy :: "'s \<Rightarrow> 's" where
  "method_copy st = st"

definition copy_state :: "('s, 'x) Annealer \<Rightarrow> 's \<Rightarrow> pyexn + 's" where
  "copy_state slf st =
     (if copy_strategy (params slf) = ''deepcopy'' then Inr (deepcopy st)
      else if copy_strategy (params slf) = ''slice'' then Inr (slice_copy st)
      else if copy_strategy (params slf) = ''method'' then Inr (method_copy st)
      else Inl RuntimeError)"

text \<open>
  \<^verbatim>\<open>Annealer.__init__\<close>: the default parameters, no best state, and a copy of the
  initial state (always a deep copy, as the default strategy is \<^verbatim>\<open>"deepcopy"\<close>).
\<close>

definition init_annealer :: "'s \<Rightarrow> 'x \<Rightarrow> ('s, 'x) Annealer" where
  "init_annealer initial_state x =
     \<lparr>params = mk_params 50000 25000 2.5, best_state = None, best_energy = None,
      start = None, state = deepcopy initial_state, side = x\<rparr>"

subsection \<open>update\<close>

text \<open>
  \<^verbatim>\<open>default_update\<close> reads the clock and, unless \<^verbatim>\<open>step == 0\<close>, logs one line. The
  line is kept as the tuple of its arguments. Both callers set \<^verbatim>\<open>self.start\<close> before
  their first update, so the elapsed time is defined.
\<close>

definition update ::
  "int \<Rightarrow> real \<Rightarrow> real \<Rightarrow> real option \<Rightarrow> real option \<Rightarrow> ('s, 'x) Env \<Rightarrow> ('s, 'x) Env" where
  "update stp T E acceptance improvement env =
     (let (now, env1) = time_time env
      in if stp = 0 then env1
         else env1\<lparr>progress := progress env1 @ [(stp, T, E, acceptance, improvement)]\<rparr>)"

subsection \<open>The Metropolis test and the two branches\<close>

text \<open>
  \<^verbatim>\<open>dE > 0.0 and math.exp(-dE / T) < random.random()\<close>: the quotient is computed
  and the random number drawn only when \<^verbatim>\<open>dE > 0.0\<close>. The result is whether the move
  is rejected.
\<close>

definition metropolis_reject ::
  "real \<Rightarrow> real \<Rightarrow> ('s, 'x) Env \<Rightarrow> (pyexn + bool) \<times> ('s, 'x) Env" where
  "metropolis_reject dE T env =
     (if 0 < dE then
        (if T = 0 then (Inl ZeroDivisionError, env)
         else let (u, env1) = random_random env in (Inr (exp (- dE / T) < u), env1))
      else (Inr False, env))"

text \<open>
  \<^verbatim>\<open>
  self.state = self.copy_state(prevState)
  self.revert()
  \<close>
\<close>

definition restore_previous ::
  "('s, 'x) Problem \<Rightarrow> 's \<Rightarrow> ('s, 'x) Env \<Rightarrow> (pyexn + unit) \<times> ('s, 'x) Env" where
  "restore_previous P prevState env =
     (case copy_state (self env) prevState of
        Inl e \<Rightarrow> (Inl e, env)
      | Inr st \<Rightarrow>
          let env1 = env\<lparr>self := (self env)\<lparr>state := st\<rparr>\<rparr>
          in case revert P of
               None \<Rightarrow> (Inl AttributeError, env1)
             | Some rv \<Rightarrow>
                 (case rv (state (self env1)) (side (self env1)) of
                    Inl e \<Rightarrow> (Inl e, env1)
                  | Inr x \<Rightarrow> (Inr (), env1\<lparr>self := (self env1)\<lparr>side := x\<rparr>\<rparr>)))"

subsection \<open>anneal\<close>

text \<open>The local variables of \<^verbatim>\<open>anneal\<close>.\<close>

record 's Run =
  l_step :: int
  l_T :: real
  l_E :: real
  l_prevState :: 's
  l_prevEnergy :: real
  l_trials :: int
  l_accepts :: int
  l_improves :: int
  l_f :: "nat option"
  l_Tfactor :: real
  l_updateWavelength :: real

text \<open>
  Lines 144 to 152, for an argument that is not \<^verbatim>\<open>None\<close>: the parameters are stored,
  the trace file is opened and its header written, the clock is read.
\<close>

definition anneal_open :: "AnnealerParams \<Rightarrow> ('s, 'x) Env \<Rightarrow> nat option \<times> ('s, 'x) Env" where
  "anneal_open p env =
     (let env1 = env\<lparr>self := (self env)\<lparr>params := p\<rparr>\<rparr>;
          (f, env2) =
             (if output_file p \<noteq> '''' then
                (let (h, env') = py_open (output_file p) env1
                 in (Some h, f_write h Header env'))
              else (None, env1));
          (now, env3) = time_time env2
      in (f, env3\<lparr>self := (self env3)\<lparr>start := Some now\<rparr>\<rparr>))"

text \<open>
  Lines 143 to 174: everything before the loop. With no argument, line 145 reads
  \<^verbatim>\<open>output_file\<close> from \<^verbatim>\<open>None\<close>. \<^verbatim>\<open>math.log\<close> raises \<^verbatim>\<open>ValueError\<close> unless its
  argument is positive. \<^verbatim>\<open>updateWavelength\<close> is bound only when \<^verbatim>\<open>updates > 0\<close> and
  read only when \<^verbatim>\<open>updates > 1\<close>; where it is unbound the field holds 0.
\<close>

definition anneal_init ::
  "('s, 'x) Problem \<Rightarrow> AnnealerParams option \<Rightarrow> ('s, 'x) Env \<Rightarrow> (pyexn + 's Run) \<times> ('s, 'x) Env" where
  "anneal_init P params_arg env =
     (case params_arg of
        None \<Rightarrow> (Inl AttributeError, env)
      | Some p \<Rightarrow>
          let (f, env4) = anneal_open p env;
              ps = params (self env4)
          in if tmin ps \<le> 0 then (Inl PyException, env4)
             else if tmax ps / tmin ps \<le> 0 then (Inl ValueError, env4)
             else
               case energy P (state (self env4)) (side (self env4)) of
                 Inl e \<Rightarrow> (Inl e, env4)
               | Inr E \<Rightarrow>
                   (case copy_state (self env4) (state (self env4)) of
                      Inl e \<Rightarrow> (Inl e, env4)
                    | Inr prevState \<Rightarrow>
                        (case copy_state (self env4) (state (self env4)) of
                           Inl e \<Rightarrow> (Inl e, env4)
                         | Inr bs \<Rightarrow>
                             let env5 = env4\<lparr>self := (self env4)
                                          \<lparr>best_state := Some bs, best_energy := Some E\<rparr>\<rparr>;
                                 env6 = (if 0 < updates ps
                                         then update 0 (tmax ps) E None None env5 else env5)
                             in (Inr \<lparr>l_step = 0, l_T = tmax ps, l_E = E,
                                      l_prevState = prevState, l_prevEnergy = E,
                                      l_trials = 0, l_accepts = 0, l_improves = 0,
                                      l_f = f,
                                      l_Tfactor = - ln (tmax ps / tmin ps),
                                      l_updateWavelength =
                                        (if 0 < updates ps
                                         then of_int (steps ps) / of_int (updates ps)
                                         else 0)\<rparr>,
                                 env6))))"

text \<open>Lines 182 to 184: the first two writes of a trace record.\<close>

definition write_step ::
  "'s Run \<Rightarrow> ('s, 'x) Env \<Rightarrow> (pyexn + unit) \<times> ('s, 'x) Env" where
  "write_step r env =
     (case l_f r of
        None \<Rightarrow> (Inr (), env)
      | Some h \<Rightarrow>
          let env1 = f_write h (StepFields (l_step r) (py_round_nd (l_T r) 4)
                       (py_round_nd (l_prevEnergy r) 3) (py_round_nd (l_E r) 3)) env
          in case best_energy (self env1) of
               None \<Rightarrow> (Inl TypeError, env1)
             | Some b \<Rightarrow> (Inr (), f_write h (BestField (py_round_nd b 2)) env1))"

text \<open>Lines 186 to 192: the rejecting branch.\<close>

definition reject_move ::
  "('s, 'x) Problem \<Rightarrow> 's Run \<Rightarrow> ('s, 'x) Env \<Rightarrow> (pyexn + 's Run) \<times> ('s, 'x) Env" where
  "reject_move P r env =
     (let env1 = (case l_f r of None \<Rightarrow> env | Some h \<Rightarrow> f_write h (AcceptedField False) env)
      in case restore_previous P (l_prevState r) env1 of
           (Inl e, env2) \<Rightarrow> (Inl e, env2)
         | (Inr u, env2) \<Rightarrow> (Inr (r\<lparr>l_E := l_prevEnergy r\<rparr>), env2))"

text \<open>Lines 194 to 205: the accepting branch.\<close>

definition accept_move ::
  "real \<Rightarrow> 's Run \<Rightarrow> ('s, 'x) Env \<Rightarrow> (pyexn + 's Run) \<times> ('s, 'x) Env" where
  "accept_move dE r env =
     (let env1 = (case l_f r of None \<Rightarrow> env | Some h \<Rightarrow> f_write h (AcceptedField True) env);
          r1 = r\<lparr>l_accepts := l_accepts r + 1\<rparr>;
          r2 = (if dE < 0 then r1\<lparr>l_improves := l_improves r1 + 1\<rparr> else r1)
      in case copy_state (self env1) (state (self env1)) of
           Inl e \<Rightarrow> (Inl e, env1)
         | Inr ps \<Rightarrow>
             let r3 = r2\<lparr>l_prevState := ps, l_prevEnergy := l_E r2\<rparr>
             in case best_energy (self env1) of
                  None \<Rightarrow> (Inl TypeError, env1)
                | Some b \<Rightarrow>
                    if l_E r3 < b then
                      (case copy_state (self env1) (state (self env1)) of
                         Inl e \<Rightarrow> (Inl e, env1)
                       | Inr bs \<Rightarrow>
                           (Inr r3, env1\<lparr>self := (self env1)
                                      \<lparr>best_state := Some bs, best_energy := Some (l_E r3)\<rparr>\<rparr>))
                    else (Inr r3, env1))"

text \<open>Lines 206 to 209: the progress update at a window boundary.\<close>

definition maybe_update :: "'s Run \<Rightarrow> ('s, 'x) Env \<Rightarrow> (pyexn + 's Run) \<times> ('s, 'x) Env" where
  "maybe_update r env =
     (if 1 < updates (params (self env)) then
        (if l_updateWavelength r = 0 then (Inl ZeroDivisionError, env)
         else if \<lfloor>of_int (l_step r) / l_updateWavelength r\<rfloor>
                   > \<lfloor>of_int (l_step r - 1) / l_updateWavelength r\<rfloor> then
           (if l_trials r = 0 then (Inl ZeroDivisionError, env)
            else (Inr (r\<lparr>l_trials := 0, l_accepts := 0, l_improves := 0\<rparr>),
                  update (l_step r) (l_T r) (l_E r)
                    (Some (of_int (l_accepts r) / of_int (l_trials r)))
                    (Some (of_int (l_improves r) / of_int (l_trials r))) env))
         else (Inr r, env))
      else (Inr r, env))"

text \<open>Line 178: the temperature of a step.\<close>

definition temperature :: "AnnealerParams \<Rightarrow> real \<Rightarrow> int \<Rightarrow> real" where
  "temperature ps Tfactor stp = tmax ps * exp (Tfactor * of_int stp / of_int (steps ps))"

text \<open>Lines 177 to 181: the locals once the move has returned \<open>dE\<close>.\<close>

definition advance :: "AnnealerParams \<Rightarrow> real \<Rightarrow> 's Run \<Rightarrow> 's Run" where
  "advance ps dE r =
     r\<lparr>l_step := l_step r + 1,
       l_T := temperature ps (l_Tfactor r) (l_step r + 1),
       l_E := l_E r + dE,
       l_trials := l_trials r + 1\<rparr>"

text \<open>
  Lines 177 to 209: one pass through the loop body. The division by \<^verbatim>\<open>steps\<close> on
  line 178 comes before the move.
\<close>

definition anneal_step ::
  "('s, 'x) Problem \<Rightarrow> 's Run \<Rightarrow> ('s, 'x) Env \<Rightarrow> (pyexn + 's Run) \<times> ('s, 'x) Env" where
  "anneal_step P r env =
     (if steps (params (self env)) = 0 then (Inl ZeroDivisionError, env)
      else
        case move P (state (self env)) (side (self env)) of
          Inl e \<Rightarrow> (Inl e, env)
        | Inr (dE, st, x) \<Rightarrow>
            let env1 = env\<lparr>self := (self env)\<lparr>state := st, side := x\<rparr>\<rparr>;
                r1 = advance (params (self env)) dE r
            in case write_step r1 env1 of
                 (Inl e, env2) \<Rightarrow> (Inl e, env2)
               | (Inr u, env2) \<Rightarrow>
                   (case metropolis_reject dE (l_T r1) env2 of
                      (Inl e, env3) \<Rightarrow> (Inl e, env3)
                    | (Inr rej, env3) \<Rightarrow>
                        (case (if rej then reject_move P r1 env3
                               else accept_move dE r1 env3) of
                           (Inl e, env4) \<Rightarrow> (Inl e, env4)
                         | (Inr r2, env4) \<Rightarrow> maybe_update r2 env4)))"

text \<open>
  The loop \<^verbatim>\<open>while step < self.params.steps\<close>. A pass that raises leaves the loop
  with the exception. The loop ends because a pass adds one to \<^verbatim>\<open>step\<close> and leaves
  the parameters alone.
\<close>

lemma write_step_self:
  "write_step r env = (res, env') \<Longrightarrow> self env' = self env"
  by (auto simp: write_step_def f_write_def Let_def split: option.splits)

lemma metropolis_reject_self:
  "metropolis_reject dE T env = (b, env') \<Longrightarrow> self env' = self env"
  by (auto simp: metropolis_reject_def random_random_def split: if_splits)

lemma restore_previous_params:
  "restore_previous P s env = (res, env') \<Longrightarrow> params (self env') = params (self env)"
  by (auto simp: restore_previous_def Let_def split: sum.splits option.splits)

lemma reject_move_params:
  "reject_move P r env = (Inr r', env') \<Longrightarrow>
     params (self env') = params (self env) \<and> l_step r' = l_step r"
  by (auto simp: reject_move_def Let_def f_write_def split: sum.splits option.splits prod.splits
      dest!: restore_previous_params)

lemma accept_move_params:
  "accept_move dE r env = (Inr r', env') \<Longrightarrow>
     params (self env') = params (self env) \<and> l_step r' = l_step r"
  by (auto simp: accept_move_def Let_def f_write_def split: sum.splits option.splits if_splits)

lemma update_self: "self (update stp T E a i env) = self env"
  by (simp add: update_def time_time_def Let_def)

lemma maybe_update_params:
  "maybe_update r env = (Inr r', env') \<Longrightarrow>
     params (self env') = params (self env) \<and> l_step r' = l_step r"
  by (auto simp: maybe_update_def update_self split: if_splits)

lemma anneal_step_Inr:
  assumes "anneal_step P r env = (Inr r', env')"
  obtains dE st x env2 rej env3 r2 env4 where
    "steps (params (self env)) \<noteq> 0"
    and "move P (state (self env)) (side (self env)) = Inr (dE, st, x)"
    and "write_step (advance (params (self env)) dE r)
           (env\<lparr>self := (self env)\<lparr>state := st, side := x\<rparr>\<rparr>) = (Inr (), env2)"
    and "metropolis_reject dE (l_T (advance (params (self env)) dE r)) env2 = (Inr rej, env3)"
    and "(if rej then reject_move P (advance (params (self env)) dE r) env3
          else accept_move dE (advance (params (self env)) dE r) env3) = (Inr r2, env4)"
    and "maybe_update r2 env4 = (Inr r', env')"
  using assms
  by (auto simp: anneal_step_def Let_def split: if_splits sum.splits prod.splits)

lemma anneal_step_params:
  assumes "anneal_step P r env = (Inr r', env')"
  shows "params (self env') = params (self env) \<and> l_step r' = l_step r + 1"
proof -
  from assms obtain dE st x env2 rej env3 r2 env4 where
    ws: "write_step (advance (params (self env)) dE r)
           (env\<lparr>self := (self env)\<lparr>state := st, side := x\<rparr>\<rparr>) = (Inr (), env2)"
    and mr: "metropolis_reject dE (l_T (advance (params (self env)) dE r)) env2 = (Inr rej, env3)"
    and br: "(if rej then reject_move P (advance (params (self env)) dE r) env3
              else accept_move dE (advance (params (self env)) dE r) env3) = (Inr r2, env4)"
    and mu: "maybe_update r2 env4 = (Inr r', env')"
    by (rule anneal_step_Inr)
  from ws have 1: "params (self env2) = params (self env)"
    by (auto dest: write_step_self)
  from mr have 2: "self env3 = self env2"
    by (rule metropolis_reject_self)
  from br have 3: "params (self env4) = params (self env3) \<and> l_step r2 = l_step r + 1"
    by (auto simp: advance_def split: if_splits dest: reject_move_params accept_move_params)
  from mu have 4: "params (self env') = params (self env4) \<and> l_step r' = l_step r2"
    by (rule maybe_update_params)
  from 1 2 3 4 show ?thesis by simp
qed

function anneal_loop ::
  "('s, 'x) Problem \<Rightarrow> 's Run \<Rightarrow> ('s, 'x) Env \<Rightarrow> (pyexn + 's Run) \<times> ('s, 'x) Env" where
  "anneal_loop P r env =
     (if l_step r < steps (params (self env)) then
        (case anneal_step P r env of
           (Inl e, env1) \<Rightarrow> (Inl e, env1)
         | (Inr r1, env1) \<Rightarrow> anneal_loop P r1 env1)
      else (Inr r, env))"
  by pat_completeness auto
termination
proof (relation "measure (\<lambda>(P, r, env). nat (steps (params (self env)) - l_step r))")
  show "wf (measure (\<lambda>(P, r, env). nat (steps (params (self env)) - l_step r)))"
    by simp
next
  fix P :: "('s, 'x) Problem" and r :: "'s Run" and env :: "('s, 'x) Env"
    and x1 env1 r1
  assume lt: "l_step r < steps (params (self env))"
    and "(x1, env1) = anneal_step P r env" and "x1 = Inr r1"
  then have "anneal_step P r env = (Inr r1, env1)" by simp
  then have "params (self env1) = params (self env) \<and> l_step r1 = l_step r + 1"
    by (rule anneal_step_params)
  with lt show "((P, r1, env1), (P, r, env))
      \<in> measure (\<lambda>(P, r, env). nat (steps (params (self env)) - l_step r))"
    by simp
qed

declare anneal_loop.simps [simp del]

text \<open>
  \<^verbatim>\<open>anneal(params)\<close>: the initialisation, the loop, then line 211 and the return of
  \<^verbatim>\<open>(self.best_state, self.best_energy)\<close>. The best state is set before the loop, so
  the branch for a missing one is never taken.
\<close>

definition anneal ::
  "('s, 'x) Problem \<Rightarrow> AnnealerParams option \<Rightarrow> ('s, 'x) Env
     \<Rightarrow> (pyexn + ('s option \<times> real option)) \<times> ('s, 'x) Env" where
  "anneal P params_arg env =
     (case anneal_init P params_arg env of
        (Inl e, env1) \<Rightarrow> (Inl e, env1)
      | (Inr r0, env1) \<Rightarrow>
          (case anneal_loop P r0 env1 of
             (Inl e, env2) \<Rightarrow> (Inl e, env2)
           | (Inr r, env2) \<Rightarrow>
               (case best_state (self env2) of
                  None \<Rightarrow> (Inl TypeError, env2)
                | Some bs \<Rightarrow>
                    (case copy_state (self env2) bs of
                       Inl e \<Rightarrow> (Inl e, env2)
                     | Inr st \<Rightarrow>
                         let env3 = env2\<lparr>self := (self env2)\<lparr>state := st\<rparr>\<rparr>
                         in (Inr (best_state (self env3), best_energy (self env3)), env3)))))"

text \<open>
  The loop cut off after at most \<open>k\<close> passes: what the locals and the environment are
  after the first \<open>k\<close> passes (or at the end of the loop, if it ends before). It serves to
  state what holds throughout a run.
\<close>

fun loop_prefix ::
  "nat \<Rightarrow> ('s, 'x) Problem \<Rightarrow> 's Run \<Rightarrow> ('s, 'x) Env \<Rightarrow> (pyexn + 's Run) \<times> ('s, 'x) Env" where
  "loop_prefix 0 P r env = (Inr r, env)"
| "loop_prefix (Suc k) P r env =
     (if l_step r < steps (params (self env)) then
        (case anneal_step P r env of
           (Inl e, env1) \<Rightarrow> (Inl e, env1)
         | (Inr r1, env1) \<Rightarrow> loop_prefix k P r1 env1)
      else (Inr r, env))"

subsection \<open>round\_figures\<close>

text \<open>
  \<^verbatim>\<open>
  def round_figures(x, n):
      return round(x, int(n - math.ceil(math.log10(abs(x)))))
  \<close>
  \<^verbatim>\<open>math.log10(0)\<close> raises \<^verbatim>\<open>ValueError\<close>. On a float, \<^verbatim>\<open>round\<close> returns a float; on
  an int it returns an int, the int itself when the number of places is not negative.
\<close>

definition round_figures :: "real \<Rightarrow> int \<Rightarrow> pyexn + real" where
  "round_figures x n =
     (if x = 0 then Inl ValueError
      else Inr (py_round_nd x (n - \<lceil>log 10 \<bar>x\<bar>\<rceil>)))"

definition py_round_nd_int :: "int \<Rightarrow> int \<Rightarrow> int" where
  "py_round_nd_int x k =
     (if 0 \<le> k then x
      else py_round (of_int x / 10 ^ nat (- k)) * 10 ^ nat (- k))"

definition round_figures_int :: "int \<Rightarrow> int \<Rightarrow> pyexn + int" where
  "round_figures_int x n =
     (if x = 0 then Inl ValueError
      else Inr (py_round_nd_int x (n - \<lceil>log 10 \<bar>of_int x\<bar>\<rceil>)))"

text \<open>\<^verbatim>\<open>int(x)\<close> on a float: truncation towards zero.\<close>

definition py_int :: "real \<Rightarrow> int" where
  "py_int x = (if 0 \<le> x then \<lfloor>x\<rfloor> else \<lceil>x\<rceil>)"

subsection \<open>auto\<close>

text \<open>The local variables of the nested function \<^verbatim>\<open>run\<close>.\<close>

record 's Probe =
  p_E :: real
  p_prevState :: 's
  p_prevEnergy :: real
  p_accepts :: int
  p_improves :: int

text \<open>Lines 231 to 243: one pass through the loop of \<^verbatim>\<open>run\<close>.\<close>

definition run_step ::
  "('s, 'x) Problem \<Rightarrow> real \<Rightarrow> 's Probe \<Rightarrow> ('s, 'x) Env \<Rightarrow> (pyexn + 's Probe) \<times> ('s, 'x) Env" where
  "run_step P T pr env =
     (case move P (state (self env)) (side (self env)) of
        Inl e \<Rightarrow> (Inl e, env)
      | Inr (d, st, x) \<Rightarrow>
          let env1 = env\<lparr>self := (self env)\<lparr>state := st, side := x\<rparr>\<rparr>
          in case energy P (state (self env1)) (side (self env1)) of
               Inl e \<Rightarrow> (Inl e, env1)
             | Inr E \<Rightarrow>
                 let dE = E - p_prevEnergy pr
                 in case metropolis_reject dE T env1 of
                      (Inl e, env2) \<Rightarrow> (Inl e, env2)
                    | (Inr rej, env2) \<Rightarrow>
                        if rej then
                          (case restore_previous P (p_prevState pr) env2 of
                             (Inl e, env3) \<Rightarrow> (Inl e, env3)
                           | (Inr u, env3) \<Rightarrow> (Inr (pr\<lparr>p_E := p_prevEnergy pr\<rparr>), env3))
                        else
                          (let pr1 = pr\<lparr>p_E := E, p_accepts := p_accepts pr + 1\<rparr>;
                               pr2 = (if dE < 0 then pr1\<lparr>p_improves := p_improves pr1 + 1\<rparr>
                                      else pr1)
                           in case copy_state (self env2) (state (self env2)) of
                                Inl e \<Rightarrow> (Inl e, env2)
                              | Inr ps \<Rightarrow>
                                  (Inr (pr2\<lparr>p_prevState := ps, p_prevEnergy := E\<rparr>), env2)))"

text \<open>\<^verbatim>\<open>for _ in range(steps)\<close>: the number of passes is known when the loop starts.\<close>

fun run_loop ::
  "nat \<Rightarrow> ('s, 'x) Problem \<Rightarrow> real \<Rightarrow> 's Probe \<Rightarrow> ('s, 'x) Env
     \<Rightarrow> (pyexn + 's Probe) \<times> ('s, 'x) Env" where
  "run_loop 0 P T pr env = (Inr pr, env)"
| "run_loop (Suc n) P T pr env =
     (case run_step P T pr env of
        (Inl e, env1) \<Rightarrow> (Inl e, env1)
      | (Inr pr1, env1) \<Rightarrow> run_loop n P T pr1 env1)"

text \<open>
  \<^verbatim>\<open>run(T, steps)\<close> returns the energy, the rate of acceptance and the rate of
  improvement.
\<close>

definition run ::
  "('s, 'x) Problem \<Rightarrow> real \<Rightarrow> int \<Rightarrow> ('s, 'x) Env
     \<Rightarrow> (pyexn + (real \<times> real \<times> real)) \<times> ('s, 'x) Env" where
  "run P T n env =
     (case energy P (state (self env)) (side (self env)) of
        Inl e \<Rightarrow> (Inl e, env)
      | Inr E \<Rightarrow>
          (case copy_state (self env) (state (self env)) of
             Inl e \<Rightarrow> (Inl e, env)
           | Inr ps \<Rightarrow>
               (case run_loop (nat n) P T
                       \<lparr>p_E = E, p_prevState = ps, p_prevEnergy = E,
                        p_accepts = 0, p_improves = 0\<rparr> env of
                  (Inl e, env1) \<Rightarrow> (Inl e, env1)
                | (Inr pr, env1) \<Rightarrow>
                    if n = 0 then (Inl ZeroDivisionError, env1)
                    else (Inr (p_E pr, of_int (p_accepts pr) / of_int n,
                               of_int (p_improves pr) / of_int n), env1))))"

text \<open>The local variables of \<^verbatim>\<open>auto\<close> that its loops change.\<close>

record Search =
  a_step :: int
  a_T :: real
  a_E :: real
  a_acceptance :: real
  a_improvement :: real

text \<open>
  The loops of \<^verbatim>\<open>auto\<close> have no bound. Each of them takes fuel, one unit for every test
  of its condition, and \<open>None\<close> is the loop that has not ended when the fuel is spent.

  Lines 254 to 257: \<^verbatim>\<open>while T == 0.0\<close>.
\<close>

fun seed_loop ::
  "nat \<Rightarrow> ('s, 'x) Problem \<Rightarrow> real \<Rightarrow> int \<Rightarrow> real \<Rightarrow> ('s, 'x) Env
     \<Rightarrow> ((pyexn + (int \<times> real)) \<times> ('s, 'x) Env) option" where
  "seed_loop 0 P E stp T env = None"
| "seed_loop (Suc n) P E stp T env =
     (if T = 0 then
        (case move P (state (self env)) (side (self env)) of
           Inl e \<Rightarrow> Some (Inl e, env)
         | Inr (d, st, x) \<Rightarrow>
             let env1 = env\<lparr>self := (self env)\<lparr>state := st, side := x\<rparr>\<rparr>
             in case energy P (state (self env1)) (side (self env1)) of
                  Inl e \<Rightarrow> Some (Inl e, env1)
                | Inr E1 \<Rightarrow> seed_loop n P E (stp + 1) \<bar>E1 - E\<bar> env1)
      else Some (Inr (stp, T), env))"

text \<open>
  Lines 263 to 267, 268 to 272 and 276 to 280: the three searches have one body and
  differ in their condition and in the factor applied to \<^verbatim>\<open>T\<close>.
\<close>

fun search_loop ::
  "nat \<Rightarrow> (Search \<Rightarrow> bool) \<Rightarrow> (real \<Rightarrow> real) \<Rightarrow> ('s, 'x) Problem \<Rightarrow> int \<Rightarrow> Search
     \<Rightarrow> ('s, 'x) Env \<Rightarrow> ((pyexn + Search) \<times> ('s, 'x) Env) option" where
  "search_loop 0 cond scale P n a env = None"
| "search_loop (Suc k) cond scale P n a env =
     (if cond a then
        (case round_figures (scale (a_T a)) 2 of
           Inl e \<Rightarrow> Some (Inl e, env)
         | Inr T \<Rightarrow>
             (case run P T n env of
                (Inl e, env1) \<Rightarrow> Some (Inl e, env1)
              | (Inr (E, acc, imp), env1) \<Rightarrow>
                  search_loop k cond scale P n
                    \<lparr>a_step = a_step a + n, a_T = T, a_E = E,
                     a_acceptance = acc, a_improvement = imp\<rparr>
                    (update (a_step a + n) T E (Some acc) (Some imp) env1)))
      else Some (Inr a, env))"

definition too_hot :: "Search \<Rightarrow> bool" where
  "too_hot a = (98 / 100 < a_acceptance a)"

definition too_cold :: "Search \<Rightarrow> bool" where
  "too_cold a = (a_acceptance a < 98 / 100)"

definition improving :: "Search \<Rightarrow> bool" where
  "improving a = (0 < a_improvement a)"

definition cooler :: "real \<Rightarrow> real" where
  "cooler T = T / (3 / 2)"

definition hotter :: "real \<Rightarrow> real" where
  "hotter T = T * (3 / 2)"

text \<open>The dictionary \<^verbatim>\<open>auto\<close> returns.\<close>

record Schedule =
  s_tmax :: real
  s_tmin :: real
  s_steps :: int
  s_updates :: int

text \<open>Lines 283 to 288: the duration and the returned dictionary.\<close>

definition auto_result ::
  "('s, 'x) Problem \<Rightarrow> real \<Rightarrow> real \<Rightarrow> real \<Rightarrow> int \<Rightarrow> ('s, 'x) Env
     \<Rightarrow> (pyexn + Schedule) \<times> ('s, 'x) Env" where
  "auto_result P minutes Tmax Tmin stp env =
     (let (now, env1) = time_time env
      in case start (self env1) of
           None \<Rightarrow> (Inl TypeError, env1)
         | Some t0 \<Rightarrow>
             let elapsed = now - t0
             in if elapsed = 0 then (Inl ZeroDivisionError, env1)
                else
                  case round_figures_int (py_int (60 * minutes * of_int stp / elapsed)) 2 of
                    Inl e \<Rightarrow> (Inl e, env1)
                  | Inr duration \<Rightarrow>
                      (case updates_attr P of
                         None \<Rightarrow> (Inl AttributeError, env1)
                       | Some u \<Rightarrow>
                           (Inr \<lparr>s_tmax = Tmax, s_tmin = Tmin, s_steps = duration,
                                 s_updates = u\<rparr>, env1)))"

text \<open>\<^verbatim>\<open>auto(minutes, steps)\<close>.\<close>

definition auto ::
  "nat \<Rightarrow> ('s, 'x) Problem \<Rightarrow> real \<Rightarrow> int \<Rightarrow> ('s, 'x) Env
     \<Rightarrow> ((pyexn + Schedule) \<times> ('s, 'x) Env) option" where
  "auto fuel P minutes n env =
     (let (now, env1) = time_time env;
          env2 = env1\<lparr>self := (self env1)\<lparr>start := Some now\<rparr>\<rparr>
      in case energy P (state (self env2)) (side (self env2)) of
           Inl e \<Rightarrow> Some (Inl e, env2)
         | Inr E \<Rightarrow>
             (case seed_loop fuel P E 0 0 (update 0 0 E None None env2) of
                None \<Rightarrow> None
              | Some (Inl e, env3) \<Rightarrow> Some (Inl e, env3)
              | Some (Inr (stp, T), env3) \<Rightarrow>
                  (case run P T n env3 of
                     (Inl e, env4) \<Rightarrow> Some (Inl e, env4)
                   | (Inr (E1, acc, imp), env4) \<Rightarrow>
                       (case search_loop fuel too_hot cooler P n
                               \<lparr>a_step = stp + n, a_T = T, a_E = E1,
                                a_acceptance = acc, a_improvement = imp\<rparr> env4 of
                          None \<Rightarrow> None
                        | Some (Inl e, env5) \<Rightarrow> Some (Inl e, env5)
                        | Some (Inr a1, env5) \<Rightarrow>
                            (case search_loop fuel too_cold hotter P n a1 env5 of
                               None \<Rightarrow> None
                             | Some (Inl e, env6) \<Rightarrow> Some (Inl e, env6)
                             | Some (Inr a2, env6) \<Rightarrow>
                                 (case search_loop fuel improving cooler P n a2 env6 of
                                    None \<Rightarrow> None
                                  | Some (Inl e, env7) \<Rightarrow> Some (Inl e, env7)
                                  | Some (Inr a3, env7) \<Rightarrow>
                                      Some (auto_result P minutes (a_T a2) (a_T a3)
                                              (a_step a3) env7)))))))"

subsection \<open>A concrete problem\<close>

text \<open>
  The one-dimensional landscape of the specification's scenarios: the state is an
  integer \<open>x\<close>, the energy is \<open>x\<^sup>2\<close>, a move goes one step up or down. The directions
  are scripted in the side data (\<open>True\<close> is up), and a move with no direction left
  raises. The subclass defines \<^verbatim>\<open>move\<close> and \<^verbatim>\<open>energy\<close> only.
\<close>

definition walk :: "(int, bool list) Problem" where
  "walk =
     \<lparr>move = (\<lambda>x ds. case ds of
                 [] \<Rightarrow> Inl (HookError ''no direction left'')
               | d # ds' \<Rightarrow>
                   (let y = (if d then x + 1 else x - 1)
                    in Inr (of_int (y * y - x * x), y, ds'))),
      energy = (\<lambda>x ds. Inr (of_int (x * x))),
      revert = None,
      updates_attr = None\<rparr>"

text \<open>The same problem in a subclass that also defines \<^verbatim>\<open>revert\<close> and \<^verbatim>\<open>updates\<close>.\<close>

definition walk_full :: "(int, bool list) Problem" where
  "walk_full = walk\<lparr>revert := Some (\<lambda>x ds. Inr ds), updates_attr := Some 100\<rparr>"

definition env_of ::
  "('s, 'x) Annealer \<Rightarrow> (nat \<Rightarrow> real) \<Rightarrow> (nat \<Rightarrow> real) \<Rightarrow> ('s, 'x) Env" where
  "env_of slf r c =
     \<lparr>self = slf, files = [], progress = [], draws = 0, ticks = 0, rnd = r, clock = c\<rparr>"

subsection \<open>An invariant of the searches\<close>

text \<open>
  What the three searches of \<^verbatim>\<open>auto\<close> keep true: the temperature is positive, the start
  time and the clock are those of the call, the clock has been read since, and the step
  count is positive when the probes have a positive length (a probe of negative length
  accepts nothing).
\<close>

definition search_ok ::
  "real \<Rightarrow> (nat \<Rightarrow> real) \<Rightarrow> nat \<Rightarrow> int \<Rightarrow> Search \<Rightarrow> ('s, 'x) Env \<Rightarrow> bool" where
  "search_ok t0 ck tk n a e =
     (0 < a_T a \<and> start (self e) = Some t0 \<and> clock e = ck \<and> tk < ticks e \<and>
      (if n \<le> 0 then a_acceptance a = 0 else 1 \<le> a_step a))"

section \<open>Auxiliary facts\<close>

lemma restore_previous_best:
  "restore_previous P s env = (res, env') \<Longrightarrow>
     best_energy (self env') = best_energy (self env) \<and> best_state (self env') = best_state (self env)
     \<and> start (self env') = start (self env)"
  by (auto simp: restore_previous_def Let_def split: sum.splits option.splits)

lemma restore_previous_state:
  "restore_previous P s env = (Inr u, env') \<Longrightarrow> state (self env') = s"
  by (auto simp: restore_previous_def Let_def copy_state_def deepcopy_def slice_copy_def method_copy_def split: sum.splits option.splits if_splits)

lemma f_write_self: "self (f_write h c env) = self env"
  by (simp add: f_write_def)

lemma maybe_update_run:
  "maybe_update r env = (Inr r', env') \<Longrightarrow>
     self env' = self env \<and> l_E r' = l_E r \<and> l_prevState r' = l_prevState r \<and> l_prevEnergy r' = l_prevEnergy r
     \<and> l_T r' = l_T r \<and> l_Tfactor r' = l_Tfactor r \<and> draws env' = draws env"
  by (auto simp: maybe_update_def update_def time_time_def split: if_splits)

lemma reject_move_result:
  "reject_move P r env = (Inr r', env') \<Longrightarrow>
     state (self env') = l_prevState r \<and> l_E r' = l_prevEnergy r \<and>
     l_prevState r' = l_prevState r \<and> l_prevEnergy r' = l_prevEnergy r \<and> l_T r' = l_T r \<and>
     l_Tfactor r' = l_Tfactor r"
  by (auto simp: reject_move_def Let_def split: sum.splits option.splits prod.splits
      dest!: restore_previous_state)

lemma accept_move_result:
  "accept_move dE r env = (Inr r', env') \<Longrightarrow>
     state (self env') = state (self env) \<and> side (self env') = side (self env) \<and> l_E r' = l_E r \<and>
     l_prevState r' = state (self env) \<and> l_prevEnergy r' = l_E r \<and> l_T r' = l_T r \<and>
     l_Tfactor r' = l_Tfactor r \<and> draws env' = draws env"
  by (auto simp: accept_move_def Let_def f_write_def copy_state_def deepcopy_def slice_copy_def method_copy_def split: sum.splits option.splits if_splits)

lemma write_step_draws:
  "write_step r env = (res, env') \<Longrightarrow> draws env' = draws env \<and> rnd env' = rnd env"
  by (auto simp: write_step_def f_write_def Let_def split: option.splits)

lemma temperature_pos: "0 < tmax ps \<Longrightarrow> 0 < temperature ps k i"
  by (simp add: temperature_def)

lemma anneal_step_accepts_nonpositive:
  assumes le: "dE \<le> 0"
    and mv0: "move P (state (self env)) (side (self env)) = Inr (dE, st, x)"
    and st: "anneal_step P r env = (Inr r', env')"
  shows "state (self env') = st \<and> side (self env') = x \<and> l_prevState r' = st \<and>
      l_prevEnergy r' = l_E r + dE \<and> l_E r' = l_E r + dE \<and> draws env' = draws env"
proof -
  from st obtain dE' st' x' env2 rej env3 r2 env4 where
    mv: "move P (state (self env)) (side (self env)) = Inr (dE', st', x')"
    and ws: "write_step (advance (params (self env)) dE' r)
           (env\<lparr>self := (self env)\<lparr>state := st', side := x'\<rparr>\<rparr>) = (Inr (), env2)"
    and mr: "metropolis_reject dE' (l_T (advance (params (self env)) dE' r)) env2 = (Inr rej, env3)"
    and br: "(if rej then reject_move P (advance (params (self env)) dE' r) env3
              else accept_move dE' (advance (params (self env)) dE' r) env3) = (Inr r2, env4)"
    and mu: "maybe_update r2 env4 = (Inr r', env')"
    by (rule anneal_step_Inr)
  from mv0 mv have eq: "dE' = dE" "st' = st" "x' = x" by simp_all
  from ws have s2: "self env2 = (self env)\<lparr>state := st, side := x\<rparr>" and d2: "draws env2 = draws env"
    using write_step_self[OF ws] write_step_draws[OF ws] by (simp_all add: eq)
  from le mr have rej: "\<not> rej" and e3: "env3 = env2"
    by (simp_all add: metropolis_reject_def eq)
  with br have acc: "accept_move dE (advance (params (self env)) dE r) env2 = (Inr r2, env4)"
    by (simp add: eq)
  note A = accept_move_result[OF acc]
  note M = maybe_update_run[OF mu]
  from A M s2 d2 show ?thesis
    by (simp add: advance_def)
qed

lemma anneal_step_accepts:
  assumes na: "\<not> (0 < dE \<and>
        exp (- dE / temperature (params (self env)) (l_Tfactor r) (l_step r + 1))
          < rnd env (draws env))"
    and mv0: "move P (state (self env)) (side (self env)) = Inr (dE, st, x)"
    and st: "anneal_step P r env = (Inr r', env')"
  shows "state (self env') = st \<and> side (self env') = x \<and> l_prevState r' = st \<and>
      l_prevEnergy r' = l_E r + dE \<and> l_E r' = l_E r + dE"
proof -
  from st obtain dE' st' x' env2 rej env3 r2 env4 where
    mv: "move P (state (self env)) (side (self env)) = Inr (dE', st', x')"
    and ws: "write_step (advance (params (self env)) dE' r)
           (env\<lparr>self := (self env)\<lparr>state := st', side := x'\<rparr>\<rparr>) = (Inr (), env2)"
    and mr: "metropolis_reject dE' (l_T (advance (params (self env)) dE' r)) env2 = (Inr rej, env3)"
    and br: "(if rej then reject_move P (advance (params (self env)) dE' r) env3
              else accept_move dE' (advance (params (self env)) dE' r) env3) = (Inr r2, env4)"
    and mu: "maybe_update r2 env4 = (Inr r', env')"
    by (rule anneal_step_Inr)
  from mv0 mv have eq: "dE' = dE" "st' = st" "x' = x" by simp_all
  from ws have s2: "self env2 = (self env)\<lparr>state := st, side := x\<rparr>"
    and d2: "draws env2 = draws env" "rnd env2 = rnd env"
    using write_step_self[OF ws] write_step_draws[OF ws] by (simp_all add: eq)
  have T: "l_T (advance (params (self env)) dE r)
             = temperature (params (self env)) (l_Tfactor r) (l_step r + 1)"
    by (simp add: advance_def)
  from mr na d2 T have rej: "\<not> rej"
    by (auto simp: metropolis_reject_def random_random_def eq split: if_splits)
  from metropolis_reject_self[OF mr] s2 have s3: "self env3 = (self env)\<lparr>state := st, side := x\<rparr>"
    by simp
  from rej br have acc: "accept_move dE (advance (params (self env)) dE r) env3 = (Inr r2, env4)"
    by (simp add: eq)
  note A = accept_move_result[OF acc]
  note M = maybe_update_run[OF mu]
  from A M s3 show ?thesis
    by (simp add: advance_def)
qed

lemma anneal_loop_prefix:
  "nat (steps (params (self env)) - l_step r) \<le> k \<Longrightarrow> anneal_loop P r env = loop_prefix k P r env"
proof (induction k arbitrary: r env)
  case 0
  then show ?case by (simp add: anneal_loop.simps[of P r env])
next
  case (Suc k)
  show ?case
  proof (cases "l_step r < steps (params (self env))")
    case False
    then show ?thesis by (simp add: anneal_loop.simps[of P r env])
  next
    case True
    show ?thesis
    proof (cases "anneal_step P r env")
      case (Pair res env1)
      show ?thesis
      proof (cases res)
        case (Inl e)
        with Pair True show ?thesis by (simp add: anneal_loop.simps[of P r env])
      next
        case (Inr r1)
        with Pair have "params (self env1) = params (self env) \<and> l_step r1 = l_step r + 1"
          using anneal_step_params by blast
        with Suc.prems True have "nat (steps (params (self env1)) - l_step r1) \<le> k" by simp
        then have "anneal_loop P r1 env1 = loop_prefix k P r1 env1" by (rule Suc.IH)
        with Pair Inr True show ?thesis by (simp add: anneal_loop.simps[of P r env])
      qed
    qed
  qed
qed

lemma loop_prefix_invariant:
  assumes step: "\<And>r env r' env'. Q r env \<Longrightarrow> l_step r < steps (params (self env)) \<Longrightarrow>
       anneal_step P r env = (Inr r', env') \<Longrightarrow> Q r' env'"
    and init: "Q r env"
    and run: "loop_prefix k P r env = (Inr r', env')"
  shows "Q r' env'"
  using init run
proof (induction k arbitrary: r env)
  case 0
  then show ?case by simp
next
  case (Suc k)
  show ?case
  proof (cases "l_step r < steps (params (self env))")
    case False
    with Suc.prems show ?thesis by simp
  next
    case True
    obtain res env1 where as: "anneal_step P r env = (res, env1)" by (cases "anneal_step P r env")
    show ?thesis
    proof (cases res)
      case (Inl e)
      with as True Suc.prems show ?thesis by simp
    next
      case (Inr r1)
      with as True Suc.prems have lp: "loop_prefix k P r1 env1 = (Inr r', env')" by simp
      from step[OF Suc.prems(1) True] as Inr have "Q r1 env1" by simp
      then show ?thesis using lp by (rule Suc.IH)
    qed
  qed
qed

lemma loop_prefix_env_invariant:
  assumes step: "\<And>r env res env'. Q env \<Longrightarrow> anneal_step P r env = (res, env') \<Longrightarrow> Q env'"
    and init: "Q env"
    and run: "loop_prefix k P r env = (res, env')"
  shows "Q env'"
  using init run
proof (induction k arbitrary: r env)
  case 0
  then show ?case by simp
next
  case (Suc k)
  show ?case
  proof (cases "l_step r < steps (params (self env))")
    case False
    with Suc.prems show ?thesis by simp
  next
    case True
    obtain res1 env1 where as: "anneal_step P r env = (res1, env1)" by (cases "anneal_step P r env")
    from step[OF Suc.prems(1) as] have q1: "Q env1" .
    show ?thesis
    proof (cases res1)
      case (Inl e)
      with as True Suc.prems q1 show ?thesis by simp
    next
      case (Inr r1)
      with as True Suc.prems have lp: "loop_prefix k P r1 env1 = (res, env')" by simp
      from q1 lp show ?thesis by (rule Suc.IH)
    qed
  qed
qed

lemma maybe_update_self:
  "maybe_update r env = (res, env') \<Longrightarrow> self env' = self env"
  by (auto simp: maybe_update_def update_self split: if_splits)

lemma reject_move_best:
  "reject_move P r env = (res, env') \<Longrightarrow> best_energy (self env') = best_energy (self env)"
  by (auto simp: reject_move_def Let_def f_write_self split: sum.splits option.splits prod.splits
      dest!: restore_previous_best)

lemma accept_move_best:
  "accept_move dE r env = (res, env') \<Longrightarrow> best_energy (self env) = Some b \<Longrightarrow>
     \<exists>b'. best_energy (self env') = Some b' \<and> b' \<le> b"
  by (auto simp: accept_move_def Let_def f_write_self split: sum.splits option.splits if_splits)

lemma anneal_step_best:
  assumes st: "anneal_step P r env = (res, env')" and b: "best_energy (self env) = Some b"
  shows "\<exists>b'. best_energy (self env') = Some b' \<and> b' \<le> b"
proof (cases "steps (params (self env)) = 0")
  case True
  with st b show ?thesis by (simp add: anneal_step_def)
next
  case nz: False
  show ?thesis
  proof (cases "move P (state (self env)) (side (self env))")
    case (Inl e)
    with st b nz show ?thesis by (simp add: anneal_step_def)
  next
    case (Inr m)
    obtain dE s x where m: "m = (dE, s, x)" by (cases m)
    let ?env1 = "env\<lparr>self := (self env)\<lparr>state := s, side := x\<rparr>\<rparr>"
    let ?r1 = "advance (params (self env)) dE r"
    have b1: "best_energy (self ?env1) = Some b" using b by simp
    obtain w env2 where ws: "write_step ?r1 ?env1 = (w, env2)" by (cases "write_step ?r1 ?env1")
    have b2: "best_energy (self env2) = Some b" using write_step_self[OF ws] b1 by simp
    show ?thesis
    proof (cases w)
      case (Inl e)
      with st nz Inr m ws b2 show ?thesis
        by (simp add: anneal_step_def Let_def)
    next
      case wr: (Inr u)
      obtain mres env3 where mr: "metropolis_reject dE (l_T ?r1) env2 = (mres, env3)"
        by (cases "metropolis_reject dE (l_T ?r1) env2")
      have b3: "best_energy (self env3) = Some b" using metropolis_reject_self[OF mr] b2 by simp
      show ?thesis
      proof (cases mres)
        case (Inl e)
        with st nz Inr m ws wr mr b3 show ?thesis
          by (simp add: anneal_step_def Let_def)
      next
        case rj: (Inr rej)
        obtain bres env4 where br: "(if rej then reject_move P ?r1 env3 else accept_move dE ?r1 env3) = (bres, env4)"
          by (cases "if rej then reject_move P ?r1 env3 else accept_move dE ?r1 env3")
        have b4: "\<exists>b'. best_energy (self env4) = Some b' \<and> b' \<le> b"
          using br b3 reject_move_best[of P ?r1 env3 bres env4] accept_move_best[of dE ?r1 env3 bres env4 b]
          by (auto split: if_splits)
        show ?thesis
        proof (cases bres)
          case (Inl e)
          with st nz Inr m ws wr mr rj br b4 show ?thesis
            by (simp add: anneal_step_def Let_def)
        next
          case r2: (Inr r2)
          with st nz Inr m ws wr mr rj br
          have "maybe_update r2 env4 = (res, env')"
            by (simp add: anneal_step_def Let_def)
          from maybe_update_self[OF this] b4 show ?thesis by simp
        qed
      qed
    qed
  qed
qed

lemma anneal_open_facts:
  assumes "anneal_open p env = (f, env4)"
  shows "params (self env4) = p" and "state (self env4) = state (self env)"
    and "side (self env4) = side (self env)" and "best_state (self env4) = best_state (self env)"
    and "best_energy (self env4) = best_energy (self env)"
    and "draws env4 = draws env" and "rnd env4 = rnd env"
  using assms
  by (auto simp: anneal_open_def Let_def py_open_def f_write_def time_time_def split: prod.splits if_splits)

lemma update_draws: "draws (update stp T E a i env) = draws env \<and> rnd (update stp T E a i env) = rnd env"
  by (simp add: update_def time_time_def Let_def)

lemma anneal_init_Inr:
  assumes ai: "anneal_init P (Some p) env = (Inr r0, env0)"
  obtains e0 where "energy P (state (self env)) (side (self env)) = Inr e0"
    and "params (self env0) = p" and "0 < tmin p" and "0 < tmax p"
    and "best_energy (self env0) = Some e0"
    and "best_state (self env0) = Some (state (self env))"
    and "state (self env0) = state (self env)"
    and "side (self env0) = side (self env)"
    and "l_step r0 = 0" and "l_T r0 = tmax p" and "l_E r0 = e0" and "l_prevEnergy r0 = e0"
    and "l_prevState r0 = state (self env)"
    and "l_Tfactor r0 = - ln (tmax p / tmin p)"
    and "draws env0 = draws env" and "rnd env0 = rnd env"
proof -
  obtain f env4 where ao: "anneal_open p env = (f, env4)" by (cases "anneal_open p env")
  note F = anneal_open_facts[OF ao]
  from ai ao F(1) have t: "0 < tmin p" and q: "0 < tmax p / tmin p"
    by (auto simp: anneal_init_def Let_def split: if_splits)
  then have tm: "0 < tmax p" by (simp add: zero_less_divide_iff)
  from ai ao F t q obtain e0 where e: "energy P (state (self env)) (side (self env)) = Inr e0"
    by (auto simp: anneal_init_def Let_def split: sum.splits)
  from ai ao F t q e have
    "params (self env0) = p \<and> best_energy (self env0) = Some e0 \<and>
     best_state (self env0) = Some (state (self env)) \<and>
     state (self env0) = state (self env) \<and> side (self env0) = side (self env) \<and>
     l_step r0 = 0 \<and> l_T r0 = tmax p \<and> l_E r0 = e0 \<and> l_prevEnergy r0 = e0 \<and>
     l_prevState r0 = state (self env) \<and> l_Tfactor r0 = - ln (tmax p / tmin p) \<and>
     draws env0 = draws env \<and> rnd env0 = rnd env"
    by (auto simp: anneal_init_def Let_def update_self update_draws
        copy_state_def deepcopy_def slice_copy_def method_copy_def
        split: if_splits)
  with e t tm that show ?thesis by blast
qed

lemma loop_eval: "anneal_loop P r env = loop_prefix (nat (steps (params (self env)) - l_step r)) P r env"
  by (rule anneal_loop_prefix) simp

lemmas eval_defs = anneal_def anneal_init_def anneal_open_def anneal_step_def advance_def temperature_def
  write_step_def metropolis_reject_def reject_move_def accept_move_def maybe_update_def restore_previous_def
  copy_state_def deepcopy_def update_def time_time_def random_random_def py_open_def f_write_def
  walk_def walk_full_def env_of_def init_annealer_def mk_params_def loop_eval Let_def

lemma anneal_step_preserves:
  assumes st: "anneal_step P r env = (res, env')" and q: "Q env"
    and mv: "\<And>s x. Q (env\<lparr>self := (self env)\<lparr>state := s, side := x\<rparr>\<rparr>)"
    and ws: "\<And>r e res e'. Q e \<Longrightarrow> write_step r e = (res, e') \<Longrightarrow> Q e'"
    and mr: "\<And>d T e res e'. Q e \<Longrightarrow> metropolis_reject d T e = (res, e') \<Longrightarrow> Q e'"
    and rj: "\<And>r e res e'. Q e \<Longrightarrow> reject_move P r e = (res, e') \<Longrightarrow> Q e'"
    and ac: "\<And>d r e res e'. Q e \<Longrightarrow> accept_move d r e = (res, e') \<Longrightarrow> Q e'"
    and mu: "\<And>r e res e'. Q e \<Longrightarrow> maybe_update r e = (res, e') \<Longrightarrow> Q e'"
  shows "Q env'"
proof (cases "steps (params (self env)) = 0")
  case True
  with st q show ?thesis by (simp add: anneal_step_def)
next
  case nz: False
  show ?thesis
  proof (cases "move P (state (self env)) (side (self env))")
    case (Inl e)
    with st q nz show ?thesis by (simp add: anneal_step_def)
  next
    case (Inr m)
    obtain dE s x where m: "m = (dE, s, x)" by (cases m)
    let ?env1 = "env\<lparr>self := (self env)\<lparr>state := s, side := x\<rparr>\<rparr>"
    let ?r1 = "advance (params (self env)) dE r"
    have q1: "Q ?env1" by (rule mv)
    obtain w env2 where w: "write_step ?r1 ?env1 = (w, env2)" by (cases "write_step ?r1 ?env1")
    have q2: "Q env2" using q1 w by (rule ws)
    show ?thesis
    proof (cases w)
      case (Inl e)
      with st nz Inr m w q2 show ?thesis
        by (simp add: anneal_step_def Let_def)
    next
      case wr: (Inr u)
      obtain mres env3 where m3: "metropolis_reject dE (l_T ?r1) env2 = (mres, env3)"
        by (cases "metropolis_reject dE (l_T ?r1) env2")
      have q3: "Q env3" using q2 m3 by (rule mr)
      show ?thesis
      proof (cases mres)
        case (Inl e)
        with st nz Inr m w wr m3 q3 show ?thesis
          by (simp add: anneal_step_def Let_def)
      next
        case rjd: (Inr rej)
        obtain bres env4 where br: "(if rej then reject_move P ?r1 env3 else accept_move dE ?r1 env3) = (bres, env4)"
          by (cases "if rej then reject_move P ?r1 env3 else accept_move dE ?r1 env3")
        have q4: "Q env4"
          using br q3 rj[of env3 ?r1 bres env4] ac[of env3 dE ?r1 bres env4]
          by (auto split: if_splits)
        show ?thesis
        proof (cases bres)
          case (Inl e)
          with st nz Inr m w wr m3 rjd br q4 show ?thesis
            by (simp add: anneal_step_def Let_def)
        next
          case r2: (Inr r2)
          with st nz Inr m w wr m3 rjd br
          have "maybe_update r2 env4 = (res, env')"
            by (simp add: anneal_step_def Let_def)
          with q4 show ?thesis by (rule mu)
        qed
      qed
    qed
  qed
qed

lemma file_status_updates [simp]:
  "file_status (env\<lparr>self := slf\<rparr>) = file_status env"
  "file_status (env\<lparr>draws := d\<rparr>) = file_status env"
  "file_status (env\<lparr>ticks := t\<rparr>) = file_status env"
  "file_status (env\<lparr>progress := g\<rparr>) = file_status env"
  by (simp_all add: file_status_def)

lemma f_write_status: "file_status (f_write h c env) = file_status env"
proof (cases "h < length (files env)")
  case True
  then show ?thesis
    by (simp add: file_status_def f_write_def map_update list_update_same_conv)
next
  case False
  then have "length (files env) \<le> h" by simp
  then show ?thesis by (simp add: file_status_def f_write_def list_update_beyond)
qed

lemma write_step_status: "write_step r e = (res, e') \<Longrightarrow> file_status e' = file_status e"
  by (auto simp: write_step_def Let_def f_write_status split: option.splits)

lemma metropolis_reject_status: "metropolis_reject d T e = (res, e') \<Longrightarrow> file_status e' = file_status e"
  by (auto simp: metropolis_reject_def random_random_def split: if_splits)

lemma restore_previous_status: "restore_previous P s e = (res, e') \<Longrightarrow> file_status e' = file_status e"
  by (auto simp: restore_previous_def Let_def split: sum.splits option.splits)

lemma reject_move_status: "reject_move P r e = (res, e') \<Longrightarrow> file_status e' = file_status e"
  by (auto simp: reject_move_def Let_def f_write_status split: sum.splits option.splits prod.splits
      dest!: restore_previous_status)

lemma accept_move_status: "accept_move d r e = (res, e') \<Longrightarrow> file_status e' = file_status e"
  by (auto simp: accept_move_def Let_def f_write_status split: sum.splits option.splits if_splits)

lemma update_status: "file_status (update stp T E a i env) = file_status env"
  by (simp add: update_def time_time_def Let_def)

lemma maybe_update_status: "maybe_update r e = (res, e') \<Longrightarrow> file_status e' = file_status e"
  by (auto simp: maybe_update_def update_status split: if_splits)

lemma anneal_step_status:
  assumes "anneal_step P r env = (res, env')"
  shows "file_status env' = file_status env"
  by (rule anneal_step_preserves[OF assms, where Q = "\<lambda>e. file_status e = file_status env"])
    (simp_all add: write_step_status metropolis_reject_status
      reject_move_status accept_move_status maybe_update_status)

lemma loop_prefix_status:
  assumes "loop_prefix k P r env = (res, env')"
  shows "file_status env' = file_status env"
  by (rule loop_prefix_env_invariant[where Q = "\<lambda>e. file_status e = file_status env", OF _ _ assms])
    (simp_all add: anneal_step_status)

lemma anneal_open_status:
  assumes "anneal_open p env = (f, env4)"
  shows "file_status env4 =
     (if output_file p \<noteq> '''' then file_status env @ [(output_file p, False)] else file_status env)"
  using assms
  by (auto simp: anneal_open_def Let_def py_open_def f_write_status time_time_def
       split: prod.splits if_splits)
    (simp_all add: file_status_def)

lemma anneal_init_status:
  assumes "anneal_init P (Some p) env = (res, env0)"
  shows "file_status env0 =
     (if output_file p \<noteq> '''' then file_status env @ [(output_file p, False)] else file_status env)"
proof -
  obtain f env4 where ao: "anneal_open p env = (f, env4)" by (cases "anneal_open p env")
  from assms ao have "file_status env0 = file_status env4"
    by (auto simp: anneal_init_def Let_def update_status split: if_splits sum.splits)
  with anneal_open_status[OF ao] show ?thesis by simp
qed

lemma anneal_status:
  assumes "anneal P (Some p) env = (res, env')"
  shows "file_status env' =
     (if output_file p \<noteq> '''' then file_status env @ [(output_file p, False)] else file_status env)"
proof -
  obtain r0 env0 where ai: "anneal_init P (Some p) env = (r0, env0)"
    by (cases "anneal_init P (Some p) env")
  note I = anneal_init_status[OF ai]
  show ?thesis
  proof (cases r0)
    case (Inl e)
    with assms ai I show ?thesis by (simp add: anneal_def)
  next
    case (Inr r)
    obtain r1 env1 where lp: "anneal_loop P r env0 = (r1, env1)" by (cases "anneal_loop P r env0")
    then have "file_status env1 = file_status env0"
      by (simp add: loop_eval loop_prefix_status)
    with assms ai I Inr lp show ?thesis
      by (auto simp: anneal_def Let_def split: sum.splits option.splits)
  qed
qed

lemma exp_minus_one_less: "exp (- 1 :: real) < 9 / 10"
proof -
  have "1 + 1 \<le> exp (1::real)" by (rule exp_ge_add_one_self)
  then have "2 \<le> exp (1::real)" by simp
  then have "inverse (exp (1::real)) \<le> inverse 2" by (intro le_imp_inverse_le) simp_all
  then show ?thesis by (simp add: exp_minus)
qed

lemma anneal_step_rejects:
  assumes st: "anneal_step P r env = (Inr r', env')"
    and mv0: "move P (state (self env)) (side (self env)) = Inr (dE, s, x)"
    and pos: "0 < dE"
    and lt: "exp (- dE / temperature (params (self env)) (l_Tfactor r) (l_step r + 1))
               < rnd env (draws env)"
  shows "state (self env') = l_prevState r \<and> l_E r' = l_prevEnergy r \<and>
         l_prevState r' = l_prevState r \<and> l_prevEnergy r' = l_prevEnergy r"
proof -
  from st obtain dE' st' x' env2 rej env3 r2 env4 where
    mv: "move P (state (self env)) (side (self env)) = Inr (dE', st', x')"
    and ws: "write_step (advance (params (self env)) dE' r)
           (env\<lparr>self := (self env)\<lparr>state := st', side := x'\<rparr>\<rparr>) = (Inr (), env2)"
    and mr: "metropolis_reject dE' (l_T (advance (params (self env)) dE' r)) env2 = (Inr rej, env3)"
    and br: "(if rej then reject_move P (advance (params (self env)) dE' r) env3
              else accept_move dE' (advance (params (self env)) dE' r) env3) = (Inr r2, env4)"
    and mu: "maybe_update r2 env4 = (Inr r', env')"
    by (rule anneal_step_Inr)
  from mv0 mv have eq: "dE' = dE" "st' = s" "x' = x" by simp_all
  from write_step_draws[OF ws] have d2: "draws env2 = draws env" "rnd env2 = rnd env" by simp_all
  have T: "l_T (advance (params (self env)) dE r)
             = temperature (params (self env)) (l_Tfactor r) (l_step r + 1)"
    by (simp add: advance_def)
  from mr pos lt d2 T have rej: rej
    by (auto simp: metropolis_reject_def random_random_def eq split: if_splits)
  with br have rm: "reject_move P (advance (params (self env)) dE r) env3 = (Inr r2, env4)"
    by (simp add: eq)
  note R = reject_move_result[OF rm]
  note M = maybe_update_run[OF mu]
  from R M show ?thesis by (simp add: advance_def)
qed

lemma anneal_step_head:
  assumes st: "anneal_step P r env = (Inr r', env')"
  shows "state (self env') = l_prevState r' \<and> l_E r' = l_prevEnergy r'"
proof -
  from st obtain dE st' x' env2 rej env3 r2 env4 where
    br: "(if rej then reject_move P (advance (params (self env)) dE r) env3
              else accept_move dE (advance (params (self env)) dE r) env3) = (Inr r2, env4)"
    and mu: "maybe_update r2 env4 = (Inr r', env')"
    by (rule anneal_step_Inr)
  note M = maybe_update_run[OF mu]
  show ?thesis
  proof (cases rej)
    case True
    with br have "reject_move P (advance (params (self env)) dE r) env3 = (Inr r2, env4)" by simp
    from reject_move_result[OF this] M show ?thesis by simp
  next
    case False
    with br have "accept_move dE (advance (params (self env)) dE r) env3 = (Inr r2, env4)" by simp
    from accept_move_result[OF this] M show ?thesis by simp
  qed
qed

lemma anneal_step_temperature:
  assumes st: "anneal_step P r env = (Inr r', env')"
  shows "l_T r' = temperature (params (self env)) (l_Tfactor r) (l_step r + 1) \<and>
         l_Tfactor r' = l_Tfactor r"
proof -
  from st obtain dE st' x' env2 rej env3 r2 env4 where
    br: "(if rej then reject_move P (advance (params (self env)) dE r) env3
              else accept_move dE (advance (params (self env)) dE r) env3) = (Inr r2, env4)"
    and mu: "maybe_update r2 env4 = (Inr r', env')"
    by (rule anneal_step_Inr)
  note M = maybe_update_run[OF mu]
  show ?thesis
  proof (cases rej)
    case True
    with br have "reject_move P (advance (params (self env)) dE r) env3 = (Inr r2, env4)" by simp
    from reject_move_result[OF this] M show ?thesis by (simp add: advance_def)
  next
    case False
    with br have "accept_move dE (advance (params (self env)) dE r) env3 = (Inr r2, env4)" by simp
    from accept_move_result[OF this] M show ?thesis by (simp add: advance_def)
  qed
qed

lemma loop_head:
  assumes ai: "anneal_init P (Some p) env = (Inr r0, env0)"
    and lp: "loop_prefix k P r0 env0 = (Inr r, env1)"
  shows "state (self env1) = l_prevState r \<and> l_E r = l_prevEnergy r \<and> params (self env1) = p \<and>
         l_Tfactor r = - ln (tmax p / tmin p) \<and> 0 \<le> l_step r \<and>
         (0 \<le> steps p \<longrightarrow> l_step r \<le> steps p) \<and>
         l_T r = (if l_step r = 0 then tmax p
                  else temperature p (- ln (tmax p / tmin p)) (l_step r))"
proof -
  let ?Q = "\<lambda>r e. state (self e) = l_prevState r \<and> l_E r = l_prevEnergy r \<and> params (self e) = p \<and>
         l_Tfactor r = - ln (tmax p / tmin p) \<and> 0 \<le> l_step r \<and>
         (0 \<le> steps p \<longrightarrow> l_step r \<le> steps p) \<and>
         l_T r = (if l_step r = 0 then tmax p
                  else temperature p (- ln (tmax p / tmin p)) (l_step r))"
  from ai have q0: "?Q r0 env0" by (rule anneal_init_Inr) simp
  have stp: "\<And>r e r' e'. ?Q r e \<Longrightarrow> l_step r < steps (params (self e)) \<Longrightarrow>
       anneal_step P r e = (Inr r', e') \<Longrightarrow> ?Q r' e'"
  proof -
    fix r e r' e'
    assume q: "?Q r e" and g: "l_step r < steps (params (self e))"
      and s: "anneal_step P r e = (Inr r', e')"
    from anneal_step_head[OF s] anneal_step_temperature[OF s] anneal_step_params[OF s] q g
    show "?Q r' e'" by auto
  qed
  show ?thesis by (rule loop_prefix_invariant[where Q = ?Q, OF stp q0 lp])
qed

lemma schedule_closed_form:
  assumes "0 < tmax p" "0 < tmin p" "steps p \<noteq> 0"
  shows "temperature p (- ln (tmax p / tmin p)) i
           = tmax p * (tmin p / tmax p) powr (of_int i / of_int (steps p))"
proof -
  have "ln (tmin p / tmax p) = - ln (tmax p / tmin p)"
    using assms by (simp add: ln_div)
  with assms show ?thesis
    by (simp add: temperature_def powr_def)
qed

lemma anneal_loop_exit:
  "anneal_loop P r env = (Inr r', env') \<Longrightarrow> \<not> l_step r' < steps (params (self env'))"
proof (induction P r env rule: anneal_loop.induct)
  case (1 P r env)
  show ?case
  proof (cases "l_step r < steps (params (self env))")
    case False
    with "1.prems" show ?thesis by (simp add: anneal_loop.simps[of P r env])
  next
    case True
    obtain res env1 where as: "anneal_step P r env = (res, env1)" by (cases "anneal_step P r env")
    show ?thesis
    proof (cases res)
      case (Inl e)
      with as True "1.prems" show ?thesis by (simp add: anneal_loop.simps[of P r env])
    next
      case (Inr r1)
      with as True "1.prems" have "anneal_loop P r1 env1 = (Inr r', env')"
        by (simp add: anneal_loop.simps[of P r env])
      with "1.IH"[OF True as[symmetric] Inr] show ?thesis by simp
    qed
  qed
qed

lemma anneal_Inr:
  assumes "anneal P (Some p) env = (Inr (bs, be), env')"
  obtains r0 env0 r env2 where "anneal_init P (Some p) env = (Inr r0, env0)"
    and "anneal_loop P r0 env0 = (Inr r, env2)"
    and "be = best_energy (self env2)" and "bs = best_state (self env2)"
  using assms
  by (auto simp: anneal_def Let_def split: sum.splits option.splits prod.splits)

subsection \<open>Rounding to significant figures\<close>

lemma py_round_bounds:
  "of_int (py_round z) \<le> z + 1 / 2" "z - 1 / 2 \<le> of_int (py_round z)" "\<lfloor>z\<rfloor> \<le> py_round z"
proof -
  show "of_int (py_round z) \<le> z + 1 / 2"
    unfolding py_round_def Let_def by (simp; linarith)
  show "z - 1 / 2 \<le> of_int (py_round z)"
    unfolding py_round_def Let_def by (simp; linarith)
  show "\<lfloor>z\<rfloor> \<le> py_round z"
    by (simp add: py_round_def Let_def)
qed

lemma py_round_nd_powr:
  "py_round_nd x k = of_int (py_round (x * 10 powr (of_int k))) / 10 powr (of_int k)"
proof (cases "0 \<le> k")
  case True
  then have "(10::real) powr (of_int k) = 10 ^ nat k"
    by (simp add: powr_real_of_int)
  with True show ?thesis by (simp add: py_round_nd_def)
next
  case False
  then have "(10::real) powr (of_int k) = inverse (10 ^ nat (- k))"
    by (simp add: powr_real_of_int)
  with False show ?thesis by (simp add: py_round_nd_def divide_inverse)
qed

lemma scaled_two_figures:
  assumes "0 < x"
  shows "10 < x * 10 powr (of_int (2 - \<lceil>log 10 x\<rceil>))"
    and "x * 10 powr (of_int (2 - \<lceil>log 10 x\<rceil>)) \<le> 100"
proof -
  let ?c = "\<lceil>log 10 x\<rceil>"
  have c1: "log 10 x \<le> of_int ?c" by linarith
  have c2: "of_int ?c - 1 < log 10 x" by linarith
  have x: "x = 10 powr (log 10 x)" using assms by simp
  have "10 powr (1::real) = 10 powr (of_int ?c - 1) * 10 powr (of_int (2 - ?c))"
    by (simp add: powr_add[symmetric])
  also have "\<dots> < 10 powr (log 10 x) * 10 powr (of_int (2 - ?c))"
    using c2 by (intro mult_strict_right_mono) simp_all
  finally show "10 < x * 10 powr (of_int (2 - ?c))" using x by simp
  have "x * 10 powr (of_int (2 - ?c)) = 10 powr (log 10 x) * 10 powr (of_int (2 - ?c))"
    using x by simp
  also have "\<dots> \<le> 10 powr (of_int ?c) * 10 powr (of_int (2 - ?c))"
    using c1 by (intro mult_right_mono) simp_all
  also have "\<dots> = 10 powr 2" by (simp add: powr_add[symmetric])
  finally show "x * 10 powr (of_int (2 - ?c)) \<le> 100" by simp
qed

lemma round_figures_bounds:
  assumes "0 < x"
  shows "\<exists>y. round_figures x 2 = Inr y \<and> 0 < y \<and> y \<le> x * (21 / 20)"
proof -
  let ?k = "2 - \<lceil>log 10 x\<rceil>"
  let ?S = "(10::real) powr (of_int ?k)"
  let ?z = "x * ?S"
  let ?m = "py_round ?z"
  have S: "0 < ?S" by simp
  from scaled_two_figures[OF assms] have z: "10 < ?z" "?z \<le> 100" by simp_all
  from z have "10 \<le> \<lfloor>?z\<rfloor>" by linarith
  with py_round_bounds(3)[of ?z] have m: "10 \<le> ?m" by linarith
  have "of_int ?m \<le> ?z + 1 / 2" by (rule py_round_bounds)
  also have "\<dots> \<le> ?z * (21 / 20)" using z by simp
  finally have up: "of_int ?m \<le> ?z * (21 / 20)" .
  have y: "round_figures x 2 = Inr (of_int ?m / ?S)"
    using assms by (simp add: round_figures_def py_round_nd_powr)
  have "0 < of_int ?m / ?S" using m S by simp
  moreover have "of_int ?m / ?S \<le> x * (21 / 20)"
  proof -
    have "of_int ?m / ?S \<le> (?z * (21 / 20)) / ?S"
      by (rule divide_right_mono[OF up]) (use S in simp)
    also have "\<dots> = x * (21 / 20)" using S by simp
    finally show ?thesis .
  qed
  ultimately show ?thesis using y by blast
qed

lemma py_round_nd_int_pos:
  assumes "0 < x" and "10 < of_int x * (10::real) powr (of_int k)"
  shows "0 < py_round_nd_int x k"
proof (cases "0 \<le> k")
  case True
  with assms show ?thesis by (simp add: py_round_nd_int_def)
next
  case False
  then have S: "(10::real) powr (of_int k) = inverse (10 ^ nat (- k))"
    by (simp add: powr_real_of_int)
  with assms have "10 < of_int x / (10::real) ^ nat (- k)" by (simp add: divide_inverse)
  then have "10 \<le> \<lfloor>of_int x / (10::real) ^ nat (- k)\<rfloor>" by linarith
  with py_round_bounds(3)[of "of_int x / (10::real) ^ nat (- k)"]
  have "0 < py_round (of_int x / (10::real) ^ nat (- k))" by linarith
  with False show ?thesis by (simp add: py_round_nd_int_def)
qed

lemma round_figures_int_pos:
  assumes "0 < x" and "round_figures_int x 2 = Inr d"
  shows "0 < d"
proof -
  have xr: "0 < (of_int x :: real)" using assms by simp
  from assms have d: "d = py_round_nd_int x (2 - \<lceil>log 10 \<bar>of_int x :: real\<bar>\<rceil>)"
    by (simp add: round_figures_int_def)
  from scaled_two_figures(1)[OF xr] xr
  have "10 < of_int x * (10::real) powr (of_int (2 - \<lceil>log 10 \<bar>of_int x :: real\<bar>\<rceil>))"
    by simp
  with d assms(1) show ?thesis by (simp only: py_round_nd_int_pos)
qed

subsection \<open>The estimator\<close>

lemma restore_previous_sys:
  "restore_previous P s env = (res, env') \<Longrightarrow>
     ticks env' = ticks env \<and> clock env' = clock env"
  by (auto simp: restore_previous_def Let_def split: sum.splits option.splits)

lemma metropolis_reject_sys:
  "metropolis_reject d T env = (res, env') \<Longrightarrow>
     self env' = self env \<and> ticks env' = ticks env \<and> clock env' = clock env"
  by (auto simp: metropolis_reject_def random_random_def split: if_splits)

lemma run_step_sys:
  assumes "run_step P T pr env = (res, env')"
  shows "start (self env') = start (self env) \<and> ticks env' = ticks env \<and> clock env' = clock env"
proof (cases "move P (state (self env)) (side (self env))")
  case (Inl e)
  with assms show ?thesis by (simp add: run_step_def)
next
  case (Inr m)
  obtain d s x where m: "m = (d, s, x)" by (cases m)
  let ?env1 = "env\<lparr>self := (self env)\<lparr>state := s, side := x\<rparr>\<rparr>"
  show ?thesis
  proof (cases "energy P s x")
    case (Inl e)
    with assms Inr m show ?thesis by (auto simp: run_step_def)
  next
    case en: (Inr E)
    obtain mres env2 where mr: "metropolis_reject (E - p_prevEnergy pr) T ?env1 = (mres, env2)"
      by (cases "metropolis_reject (E - p_prevEnergy pr) T ?env1")
    note M = metropolis_reject_sys[OF mr]
    show ?thesis
    proof (cases mres)
      case (Inl e)
      with assms Inr m en mr M show ?thesis by (simp add: run_step_def)
    next
      case rj: (Inr rej)
      show ?thesis
      proof (cases rej)
        case True
        obtain rres env3 where rp: "restore_previous P (p_prevState pr) env2 = (rres, env3)"
          by (cases "restore_previous P (p_prevState pr) env2")
        from restore_previous_sys[OF rp] restore_previous_best[OF rp] M
        have "start (self env3) = start (self env) \<and> ticks env3 = ticks env \<and> clock env3 = clock env"
          by simp
        with assms Inr m en mr rj True rp show ?thesis
          by (auto simp: run_step_def split: sum.splits)
      next
        case False
        with assms Inr m en mr rj M show ?thesis
          by (auto simp: run_step_def Let_def split: sum.splits if_splits)
      qed
    qed
  qed
qed

lemma run_loop_sys:
  "run_loop k P T pr env = (res, env') \<Longrightarrow>
     start (self env') = start (self env) \<and> ticks env' = ticks env \<and> clock env' = clock env"
proof (induction k arbitrary: pr env)
  case 0
  then show ?case by simp
next
  case (Suc k)
  obtain r1 env1 where rs: "run_step P T pr env = (r1, env1)" by (cases "run_step P T pr env")
  note S = run_step_sys[OF rs]
  show ?case
  proof (cases r1)
    case (Inl e)
    with Suc.prems rs S show ?thesis by simp
  next
    case (Inr pr1)
    with Suc.prems rs have "run_loop k P T pr1 env1 = (res, env')" by simp
    from Suc.IH[OF this] S show ?thesis by simp
  qed
qed

lemma run_sys:
  assumes "run P T n env = (res, env')"
  shows "start (self env') = start (self env) \<and> ticks env' = ticks env \<and> clock env' = clock env"
proof (cases "energy P (state (self env)) (side (self env))")
  case (Inl e)
  with assms show ?thesis by (simp add: run_def)
next
  case (Inr E)
  show ?thesis
  proof (cases "copy_state (self env) (state (self env))")
    case (Inl e)
    with assms Inr show ?thesis by (simp add: run_def)
  next
    case cs: (Inr ps)
    let ?pr = "\<lparr>p_E = E, p_prevState = ps, p_prevEnergy = E, p_accepts = 0, p_improves = 0\<rparr>"
    obtain r1 env1 where rl: "run_loop (nat n) P T ?pr env = (r1, env1)"
      by (cases "run_loop (nat n) P T ?pr env")
    from run_loop_sys[OF rl] assms Inr cs rl show ?thesis
      by (auto simp: run_def split: sum.splits if_splits)
  qed
qed

lemma run_acceptance:
  assumes "run P T n env = (Inr (E, acc, imp), env')" and "n \<le> 0"
  shows "acc = 0"
  using assms
  by (auto simp: run_def split: sum.splits if_splits)

lemma update_sys:
  "start (self (update stp T E a i env)) = start (self env) \<and>
   clock (update stp T E a i env) = clock env \<and>
   ticks (update stp T E a i env) = ticks env + 1"
  by (simp add: update_def time_time_def Let_def)

lemma seed_loop_result:
  "seed_loop k P E stp T env = Some (Inr (stp', T'), env') \<Longrightarrow> 0 \<le> T \<Longrightarrow>
     0 < T' \<and> stp \<le> stp' \<and> (T = 0 \<longrightarrow> stp < stp') \<and>
     start (self env') = start (self env) \<and> ticks env' = ticks env \<and> clock env' = clock env"
proof (induction k arbitrary: stp T env)
  case 0
  then show ?case by simp
next
  case (Suc k)
  show ?case
  proof (cases "T = 0")
    case False
    with Suc.prems show ?thesis by simp
  next
    case True
    with Suc.prems obtain d s x E1 where
      mv: "move P (state (self env)) (side (self env)) = Inr (d, s, x)"
      and en: "energy P s x = Inr E1"
      and rec: "seed_loop k P E (stp + 1) \<bar>E1 - E\<bar>
                  (env\<lparr>self := (self env)\<lparr>state := s, side := x\<rparr>\<rparr>) = Some (Inr (stp', T'), env')"
      by (auto simp: Let_def split: sum.splits)
    from Suc.IH[OF rec] show ?thesis by simp
  qed
qed

lemma search_loop_invariant:
  assumes run: "search_loop k c sc P n a env = Some (Inr a', env')"
    and init: "Q a env"
    and step: "\<And>a env T E acc imp env1. Q a env \<Longrightarrow> c a \<Longrightarrow>
        round_figures (sc (a_T a)) 2 = Inr T \<Longrightarrow> run P T n env = (Inr (E, acc, imp), env1) \<Longrightarrow>
        Q \<lparr>a_step = a_step a + n, a_T = T, a_E = E, a_acceptance = acc, a_improvement = imp\<rparr>
          (update (a_step a + n) T E (Some acc) (Some imp) env1)"
  shows "Q a' env' \<and> \<not> c a'"
  using run init
proof (induction k arbitrary: a env)
  case 0
  then show ?case by simp
next
  case (Suc k)
  show ?case
  proof (cases "c a")
    case False
    with Suc.prems show ?thesis by simp
  next
    case True
    with Suc.prems(1) obtain T E acc imp env1 where
      rf: "round_figures (sc (a_T a)) 2 = Inr T"
      and rn: "run P T n env = (Inr (E, acc, imp), env1)"
      and rec: "search_loop k c sc P n
                  \<lparr>a_step = a_step a + n, a_T = T, a_E = E, a_acceptance = acc, a_improvement = imp\<rparr>
                  (update (a_step a + n) T E (Some acc) (Some imp) env1) = Some (Inr a', env')"
      by (auto split: sum.splits prod.splits)
    from step[OF Suc.prems(2) True rf rn] have "Q \<lparr>a_step = a_step a + n, a_T = T, a_E = E,
        a_acceptance = acc, a_improvement = imp\<rparr>
        (update (a_step a + n) T E (Some acc) (Some imp) env1)" .
    from Suc.IH[OF rec this] show ?thesis .
  qed
qed

lemma auto_Some_Inr:
  assumes "auto fuel P minutes n env = Some (Inr sch, env')"
  obtains E stp T env3 E1 acc imp env4 a1 env5 a2 env6 a3 env7 where
    "energy P (state (self env)) (side (self env)) = Inr E"
    and "seed_loop fuel P E 0 0
           (update 0 0 E None None
              (env\<lparr>ticks := ticks env + 1,
                    self := (self env)\<lparr>start := Some (clock env (ticks env))\<rparr>\<rparr>))
          = Some (Inr (stp, T), env3)"
    and "run P T n env3 = (Inr (E1, acc, imp), env4)"
    and "search_loop fuel too_hot cooler P n
           \<lparr>a_step = stp + n, a_T = T, a_E = E1, a_acceptance = acc, a_improvement = imp\<rparr> env4
          = Some (Inr a1, env5)"
    and "search_loop fuel too_cold hotter P n a1 env5 = Some (Inr a2, env6)"
    and "search_loop fuel improving cooler P n a2 env6 = Some (Inr a3, env7)"
    and "auto_result P minutes (a_T a2) (a_T a3) (a_step a3) env7 = (Inr sch, env')"
  using assms
  by (auto simp: auto_def Let_def time_time_def
      split: sum.splits option.splits prod.splits)

lemma search_ok_step:
  assumes ok: "search_ok t0 ck tk n a e"
    and pos: "0 < sc (a_T a)"
    and rf: "round_figures (sc (a_T a)) 2 = Inr T"
    and rn: "run P T n e = (Inr (E, acc, imp), e1)"
  shows "search_ok t0 ck tk n
           \<lparr>a_step = a_step a + n, a_T = T, a_E = E, a_acceptance = acc, a_improvement = imp\<rparr>
           (update (a_step a + n) T E (Some acc) (Some imp) e1) \<and>
         T \<le> sc (a_T a) * (21 / 20)"
proof -
  from round_figures_bounds[OF pos] rf have T: "0 < T" "T \<le> sc (a_T a) * (21 / 20)" by auto
  note R = run_sys[OF rn]
  note U = update_sys[of "a_step a + n" T E "Some acc" "Some imp" e1]
  have acc: "n \<le> 0 \<Longrightarrow> acc = 0" using run_acceptance[OF rn] by simp
  from ok T R U acc show ?thesis
    by (auto simp: search_ok_def split: if_splits)
qed

lemma search_loop_ok:
  assumes run: "search_loop k c sc P n a env = Some (Inr a', env')"
    and ok: "search_ok t0 ck tk n a env"
    and sc: "\<And>T. 0 < T \<Longrightarrow> 0 < sc T"
  shows "search_ok t0 ck tk n a' env' \<and> \<not> c a'"
proof (rule search_loop_invariant[where Q = "search_ok t0 ck tk n", OF run ok])
  fix a env T E acc imp env1
  assume q: "search_ok t0 ck tk n a env" and "c a"
    and rf: "round_figures (sc (a_T a)) 2 = Inr T"
    and rn: "run P T n env = (Inr (E, acc, imp), env1)"
  from q have "0 < a_T a" by (simp add: search_ok_def)
  then have "0 < sc (a_T a)" by (rule sc)
  from search_ok_step[where sc = sc, OF q this rf rn]
  show "search_ok t0 ck tk n
          \<lparr>a_step = a_step a + n, a_T = T, a_E = E, a_acceptance = acc, a_improvement = imp\<rparr>
          (update (a_step a + n) T E (Some acc) (Some imp) env1)" by simp
qed

lemma search_loop_cooler:
  assumes run: "search_loop k c cooler P n a env = Some (Inr a', env')"
    and ok: "search_ok t0 ck tk n a env"
  shows "a_T a' \<le> a_T a"
proof -
  let ?Q = "\<lambda>b e. search_ok t0 ck tk n b e \<and> a_T b \<le> a_T a"
  have "?Q a' env' \<and> \<not> c a'"
  proof (rule search_loop_invariant[where Q = ?Q, OF run])
    show "?Q a env" using ok by simp
  next
    fix b env T E acc imp env1
    assume q: "?Q b env" and "c b"
      and rf: "round_figures (cooler (a_T b)) 2 = Inr T"
      and rn: "run P T n env = (Inr (E, acc, imp), env1)"
    from q have q1: "search_ok t0 ck tk n b env" by simp
    from q have p: "0 < a_T b" by (simp add: search_ok_def)
    then have "0 < cooler (a_T b)" by (simp add: cooler_def)
    from search_ok_step[where sc = cooler, OF q1 this rf rn]
    have s: "search_ok t0 ck tk n
          \<lparr>a_step = a_step b + n, a_T = T, a_E = E, a_acceptance = acc, a_improvement = imp\<rparr>
          (update (a_step b + n) T E (Some acc) (Some imp) env1)"
      and T: "T \<le> cooler (a_T b) * (21 / 20)" by simp_all
    from T p have "T \<le> a_T b" by (simp add: cooler_def)
    with q s show "?Q \<lparr>a_step = a_step b + n, a_T = T, a_E = E, a_acceptance = acc,
          a_improvement = imp\<rparr> (update (a_step b + n) T E (Some acc) (Some imp) env1)"
      by simp
  qed
  then show ?thesis by simp
qed

lemma auto_result_Inr:
  assumes "auto_result P minutes Tmax Tmin stp env = (Inr sch, env')"
  obtains t0 where "start (self env) = Some t0"
    and "clock env (ticks env) - t0 \<noteq> 0"
    and "round_figures_int (py_int (60 * minutes * of_int stp / (clock env (ticks env) - t0))) 2
           = Inr (s_steps sch)"
    and "updates_attr P = Some (s_updates sch)"
    and "s_tmax sch = Tmax" and "s_tmin sch = Tmin"
  using assms
  by (auto simp: auto_result_def Let_def time_time_def split: option.splits if_splits sum.splits)

lemma seed_loop_more_fuel:
  "seed_loop k P E stp T env = Some res \<Longrightarrow> k \<le> k' \<Longrightarrow> seed_loop k' P E stp T env = Some res"
proof (induction k arbitrary: k' stp T env)
  case 0
  then show ?case by simp
next
  case (Suc k)
  from Suc.prems(2) obtain j where k': "k' = Suc j" and kj: "k \<le> j" by (cases k') simp_all
  show ?case
  proof (cases "T = 0")
    case False
    with Suc.prems(1) k' show ?thesis by simp
  next
    case True
    show ?thesis
    proof (cases "move P (state (self env)) (side (self env))")
      case (Inl e)
      with Suc.prems(1) True k' show ?thesis by simp
    next
      case (Inr m)
      obtain d s x where m: "m = (d, s, x)" by (cases m)
      show ?thesis
      proof (cases "energy P s x")
        case (Inl e)
        with Suc.prems(1) True k' Inr m show ?thesis by simp
      next
        case en: (Inr E1)
        with Suc.prems(1) True Inr m
        have "seed_loop k P E (stp + 1) \<bar>E1 - E\<bar>
                (env\<lparr>self := (self env)\<lparr>state := s, side := x\<rparr>\<rparr>) = Some res"
          by simp
        from Suc.IH[OF this kj] True Inr m en k' show ?thesis by simp
      qed
    qed
  qed
qed

lemma search_loop_more_fuel:
  "search_loop k c sc P n a env = Some res \<Longrightarrow> k \<le> k' \<Longrightarrow>
     search_loop k' c sc P n a env = Some res"
proof (induction k arbitrary: k' a env)
  case 0
  then show ?case by simp
next
  case (Suc k)
  from Suc.prems(2) obtain j where k': "k' = Suc j" and kj: "k \<le> j" by (cases k') simp_all
  show ?case
  proof (cases "c a")
    case False
    with Suc.prems(1) k' show ?thesis by simp
  next
    case True
    show ?thesis
    proof (cases "round_figures (sc (a_T a)) 2")
      case (Inl e)
      with Suc.prems(1) True k' show ?thesis by simp
    next
      case (Inr T)
      obtain rr env1 where rn: "run P T n env = (rr, env1)" by (cases "run P T n env")
      show ?thesis
      proof (cases rr)
        case (Inl e)
        with Suc.prems(1) True k' Inr rn show ?thesis by simp
      next
        case rs: (Inr t)
        obtain E acc imp where t: "t = (E, acc, imp)" by (cases t)
        with Suc.prems(1) True Inr rn rs
        have "search_loop k c sc P n
                \<lparr>a_step = a_step a + n, a_T = T, a_E = E, a_acceptance = acc, a_improvement = imp\<rparr>
                (update (a_step a + n) T E (Some acc) (Some imp) env1) = Some res"
          by simp
        from Suc.IH[OF this kj] True Inr rn rs t k' show ?thesis by simp
      qed
    qed
  qed
qed

lemma auto_more_fuel:
  assumes au: "auto k P minutes n env = Some res" and kk: "k \<le> k'"
  shows "auto k' P minutes n env = Some res"
proof -
  let ?env2 = "env\<lparr>ticks := ticks env + 1,
                   self := (self env)\<lparr>start := Some (clock env (ticks env))\<rparr>\<rparr>"
  show ?thesis
  proof (cases "energy P (state (self env)) (side (self env))")
    case (Inl e)
    with au show ?thesis by (simp add: auto_def Let_def time_time_def)
  next
    case (Inr E)
    let ?env3 = "update 0 0 E None None ?env2"
    from au Inr obtain sres where sd: "seed_loop k P E 0 0 ?env3 = Some sres"
      by (auto simp: auto_def Let_def time_time_def split: option.splits)
    note sd' = seed_loop_more_fuel[OF sd kk]
    obtain s0 env3 where sr: "sres = (s0, env3)" by (cases sres)
    show ?thesis
    proof (cases s0)
      case (Inl e)
      with au Inr sd sd' sr show ?thesis by (simp add: auto_def Let_def time_time_def)
    next
      case sI: (Inr st)
      obtain stp T where st: "st = (stp, T)" by (cases st)
      obtain rr env4 where rn: "run P T n env3 = (rr, env4)" by (cases "run P T n env3")
      show ?thesis
      proof (cases rr)
        case (Inl e)
        with au Inr sd sd' sr sI st rn show ?thesis by (simp add: auto_def Let_def time_time_def)
      next
        case rI: (Inr t)
        obtain E1 acc imp where t: "t = (E1, acc, imp)" by (cases t)
        let ?a0 = "\<lparr>a_step = stp + n, a_T = T, a_E = E1, a_acceptance = acc, a_improvement = imp\<rparr>"
        from au Inr sd sr sI st rn rI t obtain r1 where
          l1: "search_loop k too_hot cooler P n ?a0 env4 = Some r1"
          by (auto simp: auto_def Let_def time_time_def split: option.splits)
        note l1' = search_loop_more_fuel[OF l1 kk]
        obtain q1 env5 where r1: "r1 = (q1, env5)" by (cases r1)
        show ?thesis
        proof (cases q1)
          case (Inl e)
          with au Inr sd sd' sr sI st rn rI t l1 l1' r1 show ?thesis
            by (simp add: auto_def Let_def time_time_def)
        next
          case q1I: (Inr a1)
          from au Inr sd sr sI st rn rI t l1 r1 q1I obtain r2 where
            l2: "search_loop k too_cold hotter P n a1 env5 = Some r2"
            by (auto simp: auto_def Let_def time_time_def split: option.splits)
          note l2' = search_loop_more_fuel[OF l2 kk]
          obtain q2 env6 where r2: "r2 = (q2, env6)" by (cases r2)
          show ?thesis
          proof (cases q2)
            case (Inl e)
            with au Inr sd sd' sr sI st rn rI t l1 l1' r1 q1I l2 l2' r2 show ?thesis
              by (simp add: auto_def Let_def time_time_def)
          next
            case q2I: (Inr a2)
            from au Inr sd sr sI st rn rI t l1 r1 q1I l2 r2 q2I obtain r3 where
              l3: "search_loop k improving cooler P n a2 env6 = Some r3"
              by (auto simp: auto_def Let_def time_time_def split: option.splits)
            note l3' = search_loop_more_fuel[OF l3 kk]
            obtain q3 env7 where r3: "r3 = (q3, env7)" by (cases r3)
            from au Inr sd sd' sr sI st rn rI t l1 l1' r1 q1I l2 l2' r2 q2I l3 l3' r3
            show ?thesis
              by (cases q3) (simp_all add: auto_def Let_def time_time_def)
          qed
        qed
      qed
    qed
  qed
qed

lemma ceiling_log10:
  assumes "10 powr (of_int c - 1) < x" and "x \<le> 10 powr (of_int c)"
  shows "\<lceil>log 10 x\<rceil> = c"
proof (rule ceiling_unique)
  have x: "0 < x" using assms(1) by (rule less_trans[rotated]) simp
  show "of_int c - 1 < log 10 x" using assms(1) x by (simp add: less_log_iff)
  show "log 10 x \<le> of_int c" using assms(2) x by (simp add: log_le_iff)
qed

lemma ceiling_log10_three_halves: "\<lceil>log 10 (3 / 2 :: real)\<rceil> = 1"
  by (rule ceiling_log10) simp_all

lemma ceiling_log10_sixty: "\<lceil>log 10 (60 :: real)\<rceil> = 2"
proof (rule ceiling_log10)
  show "10 powr (of_int 2 - 1) < (60::real)" by simp
  have "(10::real) powr (of_int 2) = 10 ^ 2" by (simp add: powr_numeral)
  then show "(60::real) \<le> 10 powr (of_int 2)" by simp
qed

lemma exp_minus_three_less: "exp (- 3 :: real) < 9 / 10"
proof -
  have "exp (- 3 :: real) \<le> exp (- 1)" by simp
  with exp_minus_one_less show ?thesis by linarith
qed

lemmas auto_eval_defs = auto_def auto_result_def run_def run_step_def round_figures_def
  round_figures_int_def py_round_nd_def py_round_nd_int_def py_round_def py_int_def
  too_hot_def too_cold_def improving_def cooler_def hotter_def
  metropolis_reject_def restore_previous_def copy_state_def deepcopy_def update_def
  time_time_def random_random_def walk_def walk_full_def env_of_def init_annealer_def
  mk_params_def Let_def

section \<open>Properties\<close>

subsection \<open>time\_string\<close>

text \<open>
  C9, as stated: \<^verbatim>\<open>time_string(3661)\<close> returns \<^verbatim>\<open>"   0:01:01"\<close>. It does not: 3661
  seconds are one hour, one minute and one second, and the hours field is 1.
\<close>

theorem time_string_3661_not_zero_hours: "time_string 3661 \<noteq> ''   0:01:01''"
  by code_simp

text \<open>
  C9, amended: \<^verbatim>\<open>time_string(3661)\<close> returns \<^verbatim>\<open>"   1:01:01"\<close>, the hours field
  right-aligned in four columns, minutes and seconds zero-padded to two digits.
\<close>

theorem time_string_3661: "time_string 3661 = ''   1:01:01''"
  by code_simp

subsection \<open>Errors before the first move\<close>

text \<open>
  C10: \<^verbatim>\<open>anneal()\<close> with no argument raises before anything else happens: the guard
  \<^verbatim>\<open>params is not None\<close> is skipped and \<^verbatim>\<open>params.output_file\<close> is read from
  \<^verbatim>\<open>None\<close>. Nothing of the environment has changed, whatever the problem and
  whatever \<^verbatim>\<open>self.params\<close> holds.
\<close>

theorem anneal_without_params_raises: "anneal P None env = (Inl AttributeError, env)"
  by (simp add: anneal_def anneal_init_def)

text \<open>
  C6: \<^verbatim>\<open>copy_state\<close> raises for every copy strategy other than the three it knows;
  \<^verbatim>\<open>anneal\<close> with \<^verbatim>\<open>tmin <= 0\<close> raises, and state, best state and best energy (and
  the side data, and the number of random draws) are what they were. No hook has been
  called: the outcome is the same for every problem.
\<close>

theorem configuration_errors:
  "(copy_strategy (params slf) \<notin> {''deepcopy'', ''slice'', ''method''} \<longrightarrow>
      copy_state slf st = Inl RuntimeError) \<and>
   (tmin p \<le> 0 \<longrightarrow>
      fst (anneal P (Some p) env) = Inl PyException \<and>
      state (self (snd (anneal P (Some p) env))) = state (self env) \<and>
      best_state (self (snd (anneal P (Some p) env))) = best_state (self env) \<and>
      best_energy (self (snd (anneal P (Some p) env))) = best_energy (self env) \<and>
      side (self (snd (anneal P (Some p) env))) = side (self env) \<and>
      draws (snd (anneal P (Some p) env)) = draws env \<and>
      anneal P' (Some p) env = anneal P (Some p) env)"
  by (simp add: copy_state_def anneal_def anneal_init_def anneal_open_def Let_def py_open_def
      f_write_def time_time_def split: prod.splits)

theorem configuration_errors_witness:
  "copy_strategy (params ((init_annealer (3::int) [True])\<lparr>params := (mk_params 10 10 1)\<lparr>copy_strategy := ''shallow''\<rparr>\<rparr>))
      \<notin> {''deepcopy'', ''slice'', ''method''} \<and>
   copy_state ((init_annealer (3::int) [True])\<lparr>params := (mk_params 10 10 1)\<lparr>copy_strategy := ''shallow''\<rparr>\<rparr>) 3
      = Inl RuntimeError \<and>
   tmin (mk_params 10 10 0) \<le> 0 \<and>
   fst (anneal walk (Some (mk_params 10 10 0))
          (env_of (init_annealer 3 [True]) (\<lambda>n. 0) (\<lambda>n. 0))) = Inl PyException \<and>
   state (self (snd (anneal walk (Some (mk_params 10 10 0))
          (env_of (init_annealer 3 [True]) (\<lambda>n. 0) (\<lambda>n. 0))))) = 3"
  using configuration_errors
    [of "(init_annealer (3::int) [True])\<lparr>params := (mk_params 10 10 1)\<lparr>copy_strategy := ''shallow''\<rparr>\<rparr>"
        3 "mk_params 10 10 0" walk "env_of (init_annealer 3 [True]) (\<lambda>n. 0) (\<lambda>n. 0)" walk]
  by (simp add: mk_params_def init_annealer_def env_of_def deepcopy_def)

subsection \<open>The Metropolis test\<close>

text \<open>
  C1, as stated: a move is rejected if and only if \<open>dE > 0\<close> and the random number is not
  less than \<open>exp (- dE / T)\<close>. The code compares \<^verbatim>\<open>math.exp(-dE / T) < random.random()\<close>:
  a random number equal to \<open>exp (- dE / T)\<close> is not less than it, and the move is accepted.
  Here \<open>dE = ln 2\<close>, \<open>T = 1\<close> and the random number is \<open>1/2\<close>.
\<close>

theorem metropolis_tie_is_accepted:
  "0 < ln (2::real) \<and>
   \<not> rnd (env_of (init_annealer (0::int) ([]::bool list)) (\<lambda>n. 1 / 2) (\<lambda>n. 0))
        (draws (env_of (init_annealer (0::int) ([]::bool list)) (\<lambda>n. 1 / 2) (\<lambda>n. 0)))
      < exp (- ln 2 / 1) \<and>
   fst (metropolis_reject (ln 2) 1
          (env_of (init_annealer (0::int) ([]::bool list)) (\<lambda>n. 1 / 2) (\<lambda>n. 0))) = Inr False"
  by (simp add: metropolis_reject_def random_random_def env_of_def exp_minus)

text \<open>
  C1, amended: a move is rejected if and only if \<open>dE > 0\<close> and the random number is
  strictly greater than \<open>exp (- dE / T)\<close>. In a pass of the loop that is the case in which
  the state and the energy are restored from the snapshot; in every other case the state
  the move produced is kept and becomes the new snapshot, with the energy \<open>E + dE\<close>. For
  \<open>dE \<le> 0\<close> no random number is drawn and the move is accepted.
\<close>

theorem metropolis_test:
  "(T \<noteq> 0 \<longrightarrow>
      (fst (metropolis_reject dE T env) = Inr True) =
        (0 < dE \<and> exp (- dE / T) < rnd env (draws env))) \<and>
   (dE \<le> 0 \<longrightarrow> metropolis_reject dE T env = (Inr False, env)) \<and>
   (move P (state (self env)) (side (self env)) = Inr (dE, st, x) \<and>
    anneal_step P r env = (Inr r', env') \<longrightarrow>
      (if 0 < dE \<and>
          exp (- dE / temperature (params (self env)) (l_Tfactor r) (l_step r + 1))
            < rnd env (draws env)
       then state (self env') = l_prevState r \<and> l_E r' = l_prevEnergy r \<and>
            l_prevState r' = l_prevState r \<and> l_prevEnergy r' = l_prevEnergy r
       else state (self env') = st \<and> side (self env') = x \<and> l_prevState r' = st \<and>
            l_prevEnergy r' = l_E r + dE \<and> l_E r' = l_E r + dE) \<and>
      (dE \<le> 0 \<longrightarrow> draws env' = draws env))"
proof -
  have 1: "T \<noteq> 0 \<longrightarrow>
      (fst (metropolis_reject dE T env) = Inr True) =
        (0 < dE \<and> exp (- dE / T) < rnd env (draws env))"
    by (simp add: metropolis_reject_def random_random_def)
  have 2: "dE \<le> 0 \<longrightarrow> metropolis_reject dE T env = (Inr False, env)"
    by (simp add: metropolis_reject_def)
  have 3: "(if 0 < dE \<and>
          exp (- dE / temperature (params (self env)) (l_Tfactor r) (l_step r + 1))
            < rnd env (draws env)
       then state (self env') = l_prevState r \<and> l_E r' = l_prevEnergy r \<and>
            l_prevState r' = l_prevState r \<and> l_prevEnergy r' = l_prevEnergy r
       else state (self env') = st \<and> side (self env') = x \<and> l_prevState r' = st \<and>
            l_prevEnergy r' = l_E r + dE \<and> l_E r' = l_E r + dE) \<and>
      (dE \<le> 0 \<longrightarrow> draws env' = draws env)"
    if mv: "move P (state (self env)) (side (self env)) = Inr (dE, st, x)"
      and st: "anneal_step P r env = (Inr r', env')"
  proof (cases "0 < dE \<and>
          exp (- dE / temperature (params (self env)) (l_Tfactor r) (l_step r + 1))
            < rnd env (draws env)")
    case True
    then have "dE \<le> 0 \<longrightarrow> draws env' = draws env" by simp
    with anneal_step_rejects[OF st mv] True show ?thesis
      unfolding if_P[OF True] by blast
  next
    case False
    have "dE \<le> 0 \<longrightarrow> draws env' = draws env"
      using anneal_step_accepts_nonpositive[OF _ mv st] by blast
    with anneal_step_accepts[OF False mv st] show ?thesis
      unfolding if_not_P[OF False] by blast
  qed
  from 1 2 3 show ?thesis by blast
qed

theorem metropolis_test_witness:
  "(1::real) \<noteq> 0 \<and>
   fst (metropolis_reject 1 1 (env_of (init_annealer (0::int) [True]) (\<lambda>n. 9 / 10) (\<lambda>n. 0)))
     = Inr True \<and>
   (- 5 :: real) \<le> 0 \<and>
   (\<exists>r0 env0 r' env'.
      anneal_init walk_full (Some (mk_params 1 1 1))
        (env_of (init_annealer (3::int) [False]) (\<lambda>n. 0) (\<lambda>n. 0)) = (Inr r0, env0) \<and>
      move walk_full (state (self env0)) (side (self env0)) = Inr (- 5, 2, []) \<and>
      anneal_step walk_full r0 env0 = (Inr r', env') \<and>
      state (self env') = 2 \<and> l_prevState r' = 2 \<and> l_E r' = l_E r0 + - 5 \<and>
      draws env' = draws env0) \<and>
   (\<exists>r0 env0 r' env'.
      anneal_init walk_full (Some (mk_params 1 1 1))
        (env_of (init_annealer (0::int) [True]) (\<lambda>n. 9 / 10) (\<lambda>n. 0)) = (Inr r0, env0) \<and>
      move walk_full (state (self env0)) (side (self env0)) = Inr (1, 1, []) \<and>
      anneal_step walk_full r0 env0 = (Inr r', env') \<and>
      state (self env') = 0 \<and> l_E r' = 0)"
proof -
  let ?env9 = "env_of (init_annealer (0::int) [True]) (\<lambda>n. 9 / 10) (\<lambda>n. 0)"
  let ?env = "env_of (init_annealer (3::int) [False]) (\<lambda>n. 0) (\<lambda>n. 0)"
  let ?p = "mk_params 1 1 1"
  note e = exp_minus_one_less
  have "\<exists>r0. fst (anneal_init walk_full (Some ?p) ?env) = Inr r0"
    by (simp add: eval_defs)
  then obtain r0 env0 where ai: "anneal_init walk_full (Some ?p) ?env = (Inr r0, env0)"
    by (cases "anneal_init walk_full (Some ?p) ?env") auto
  then have env0: "state (self env0) = 3" "side (self env0) = [False]"
    by (auto simp: eval_defs split: if_splits)
  have mv0: "move walk_full (state (self env0)) (side (self env0)) = Inr (- 5, 2, [])"
    by (simp add: env0 eval_defs)
  from ai have "\<exists>r'. fst (anneal_step walk_full r0 env0) = Inr r'"
    by (auto simp: eval_defs split: if_splits)
  then obtain r' env' where st: "anneal_step walk_full r0 env0 = (Inr r', env')"
    by (cases "anneal_step walk_full r0 env0") auto
  have rej: "exp (- 1 / 1 :: real) < rnd ?env9 (draws ?env9)"
    using e by (simp add: env_of_def)
  from metropolis_test[of 1 1 ?env9, THEN conjunct1] rej
  have A1: "fst (metropolis_reject 1 1 ?env9) = Inr True" by simp
  from metropolis_test[of 1 "- 5" env0 walk_full 2 "[]" r0 r' env', THEN conjunct2, THEN conjunct2]
    mv0 st
  have A2: "state (self env') = 2 \<and> l_prevState r' = 2 \<and> l_E r' = l_E r0 + - 5 \<and>
        draws env' = draws env0"
    by simp
  note A = conjI[OF A1 A2]
  have "\<exists>r1. fst (anneal_init walk_full (Some ?p) ?env9) = Inr r1"
    by (simp add: eval_defs)
  then obtain r1 env1 where ai1: "anneal_init walk_full (Some ?p) ?env9 = (Inr r1, env1)"
    by (cases "anneal_init walk_full (Some ?p) ?env9") auto
  then have f1: "state (self env1) = 0" "side (self env1) = [True]" "l_step r1 = 0"
    "l_Tfactor r1 = 0" "rnd env1 = (\<lambda>n. 9 / 10)" "l_E r1 = 0" "params (self env1) = ?p"
    "l_prevState r1 = 0" "l_prevEnergy r1 = 0"
    by (auto simp: eval_defs split: if_splits)
  have mv1: "move walk_full (state (self env1)) (side (self env1)) = Inr (1, 1, [])"
    by (simp add: f1 eval_defs)
  have lt: "exp (- 1 / temperature (params (self env1)) (l_Tfactor r1) (l_step r1 + 1))
      < rnd env1 (draws env1)"
    using e by (simp add: f1 temperature_def mk_params_def)
  from ai1 e have "\<exists>r'. fst (anneal_step walk_full r1 env1) = Inr r'"
    by (auto simp: eval_defs split: if_splits)
  then obtain r1' env1' where st1: "anneal_step walk_full r1 env1 = (Inr r1', env1')"
    by (cases "anneal_step walk_full r1 env1") auto
  from metropolis_test[of 1 1 env1 walk_full 1 "[]" r1 r1' env1', THEN conjunct2, THEN conjunct2]
    mv1 st1 lt
  have B: "state (self env1') = 0 \<and> l_E r1' = 0" by (simp add: f1)
  from A ai mv0 st have C: "\<exists>r0 env0 r' env'.
      anneal_init walk_full (Some ?p) ?env = (Inr r0, env0) \<and>
      move walk_full (state (self env0)) (side (self env0)) = Inr (- 5, 2, []) \<and>
      anneal_step walk_full r0 env0 = (Inr r', env') \<and>
      state (self env') = 2 \<and> l_prevState r' = 2 \<and> l_E r' = l_E r0 + - 5 \<and>
      draws env' = draws env0"
    by blast
  from B ai1 mv1 st1 have D: "\<exists>r0 env0 r' env'.
      anneal_init walk_full (Some ?p) ?env9 = (Inr r0, env0) \<and>
      move walk_full (state (self env0)) (side (self env0)) = Inr (1, 1, []) \<and>
      anneal_step walk_full r0 env0 = (Inr r', env') \<and>
      state (self env') = 0 \<and> l_E r' = 0"
    by blast
  have a1: "(1::real) \<noteq> 0" and a3: "(- 5 :: real) \<le> 0" by simp_all
  from A have a2: "fst (metropolis_reject 1 1 ?env9) = Inr True" by blast
  from a1 a2 a3 C D show ?thesis by blast
qed


subsection \<open>The revert hook\<close>

text \<open>
  C2: a subclass that defines \<^verbatim>\<open>move\<close> and \<^verbatim>\<open>energy\<close> only has no \<^verbatim>\<open>revert\<close>, and
  the base class gives it none. Its first rejected move raises \<^verbatim>\<open>AttributeError\<close> at
  \<^verbatim>\<open>self.revert()\<close>, after the state has been restored; the run does not complete. The
  same run completes once the subclass defines \<^verbatim>\<open>revert\<close>. One step from \<open>x = 0\<close> up,
  \<open>dE = 1\<close>, \<open>T = 1\<close>, random number \<open>9/10\<close>.
\<close>

theorem rejection_without_revert_raises:
  "fst (anneal walk (Some (mk_params 1 1 1))
          (env_of (init_annealer (0::int) [True]) (\<lambda>n. 9 / 10) (\<lambda>n. 0))) = Inl AttributeError \<and>
   state (self (snd (anneal walk (Some (mk_params 1 1 1))
          (env_of (init_annealer (0::int) [True]) (\<lambda>n. 9 / 10) (\<lambda>n. 0))))) = 0 \<and>
   fst (anneal walk_full (Some (mk_params 1 1 1))
          (env_of (init_annealer (0::int) [True]) (\<lambda>n. 9 / 10) (\<lambda>n. 0))) = Inr (Some 0, Some 0)"
  using exp_minus_one_less
  by (simp add: eval_defs)


subsection \<open>The best energy\<close>

text \<open>
  C4: the best energy never exceeds the energy of the initial state: not in the pair a
  completed run returns, and not after any number of passes through the loop, however
  the loop is left.
\<close>

theorem best_energy_never_worse:
  assumes e0: "energy P (state (self env)) (side (self env)) = Inr e0"
  shows "(anneal P (Some p) env = (Inr (bs, be), env') \<longrightarrow> (\<exists>b. be = Some b \<and> b \<le> e0)) \<and>
         (anneal_init P (Some p) env = (Inr r0, env0) \<and> loop_prefix k P r0 env0 = (res, env1) \<longrightarrow>
            (\<exists>b. best_energy (self env1) = Some b \<and> b \<le> e0))"
proof -
  have inv: "\<exists>b. best_energy (self e1) = Some b \<and> b \<le> e0"
    if ai: "anneal_init P (Some p) env = (Inr r0, e0')" and lp: "loop_prefix k P r0 e0' = (res, e1)"
    for r0 e0' k res e1
  proof -
    from ai obtain e where "energy P (state (self env)) (side (self env)) = Inr e"
      and "best_energy (self e0') = Some e"
      by (rule anneal_init_Inr)
    with e0 have b0: "\<exists>b. best_energy (self e0') = Some b \<and> b \<le> e0" by simp
    have stp: "\<And>r e res e'. \<exists>b. best_energy (self e) = Some b \<and> b \<le> e0 \<Longrightarrow>
        anneal_step P r e = (res, e') \<Longrightarrow> \<exists>b. best_energy (self e') = Some b \<and> b \<le> e0"
      using anneal_step_best by fastforce
    show ?thesis
      by (rule loop_prefix_env_invariant
          [where Q = "\<lambda>e. \<exists>b. best_energy (self e) = Some b \<and> b \<le> e0", OF stp b0 lp])
  qed
  have fin: "\<exists>b. be = Some b \<and> b \<le> e0" if an: "anneal P (Some p) env = (Inr (bs, be), env')"
  proof -
    from an obtain r0 e0' r e2 where ai: "anneal_init P (Some p) env = (Inr r0, e0')"
      and al: "anneal_loop P r0 e0' = (Inr r, e2)" and be: "be = best_energy (self e2)"
      by (rule anneal_Inr)
    from al have "loop_prefix (nat (steps (params (self e0')) - l_step r0)) P r0 e0' = (Inr r, e2)"
      by (simp add: loop_eval)
    from inv[OF ai this] be show ?thesis by simp
  qed
  from inv fin show ?thesis by blast
qed

theorem best_energy_never_worse_witness:
  "energy walk_full (state (self (env_of (init_annealer (3::int) [False, True]) (\<lambda>n. 0) (\<lambda>n. 0))))
      (side (self (env_of (init_annealer (3::int) [False, True]) (\<lambda>n. 0) (\<lambda>n. 0)))) = Inr 9 \<and>
   (\<exists>env'. anneal walk_full (Some (mk_params 2 1 1))
        (env_of (init_annealer (3::int) [False, True]) (\<lambda>n. 0) (\<lambda>n. 0)) = (Inr (Some 2, Some 4), env')) \<and>
   (\<exists>r0 env0 res env1.
      anneal_init walk_full (Some (mk_params 2 1 1))
        (env_of (init_annealer (3::int) [False, True]) (\<lambda>n. 0) (\<lambda>n. 0)) = (Inr r0, env0) \<and>
      loop_prefix 1 walk_full r0 env0 = (res, env1) \<and>
      (\<exists>b. best_energy (self env1) = Some b \<and> b \<le> 9)) \<and>
   (4::real) \<le> 9"
proof -
  let ?env = "env_of (init_annealer (3::int) [False, True]) (\<lambda>n. 0) (\<lambda>n. 0)"
  let ?p = "mk_params 2 1 1"
  have e: "energy walk_full (state (self ?env)) (side (self ?env)) = Inr 9"
    by (simp add: walk_full_def walk_def env_of_def init_annealer_def deepcopy_def)
  have "fst (anneal walk_full (Some ?p) ?env) = Inr (Some 2, Some 4)"
    by (simp add: eval_defs eval_nat_numeral)
  then obtain env' where an: "anneal walk_full (Some ?p) ?env = (Inr (Some 2, Some 4), env')"
    by (cases "anneal walk_full (Some ?p) ?env") simp
  have "\<exists>r0. fst (anneal_init walk_full (Some ?p) ?env) = Inr r0"
    by (simp add: eval_defs)
  then obtain r0 env0 where ai: "anneal_init walk_full (Some ?p) ?env = (Inr r0, env0)"
    by (cases "anneal_init walk_full (Some ?p) ?env") auto
  obtain res env1 where lp: "loop_prefix 1 walk_full r0 env0 = (res, env1)"
    by (cases "loop_prefix 1 walk_full r0 env0")
  from best_energy_never_worse[OF e, of ?p "Some 2" "Some 4" env' r0 env0 1 res env1] ai lp
  have "\<exists>b. best_energy (self env1) = Some b \<and> b \<le> 9" by simp
  with e an ai lp show ?thesis by auto
qed

subsection \<open>Rejection\<close>

lemma run_step_rejects:
  assumes st: "run_step P T pr env = (Inr pr', env')"
    and mv: "move P (state (self env)) (side (self env)) = Inr (d, s, x)"
    and en: "energy P s x = Inr E"
    and pos: "0 < E - p_prevEnergy pr"
    and lt: "exp (- (E - p_prevEnergy pr) / T) < rnd env (draws env)"
  shows "state (self env') = p_prevState pr \<and> p_E pr' = p_prevEnergy pr \<and>
         p_prevState pr' = p_prevState pr \<and> p_prevEnergy pr' = p_prevEnergy pr"
proof -
  let ?env1 = "env\<lparr>self := (self env)\<lparr>state := s, side := x\<rparr>\<rparr>"
  from st mv en pos lt have T: "T \<noteq> 0"
    by (auto simp: run_step_def Let_def metropolis_reject_def split: if_splits)
  with pos lt have mr: "metropolis_reject (E - p_prevEnergy pr) T ?env1
      = (Inr True, ?env1\<lparr>draws := draws env + 1\<rparr>)"
    by (simp add: metropolis_reject_def random_random_def)
  from st mv en mr obtain u where
    rp: "restore_previous P (p_prevState pr) (?env1\<lparr>draws := draws env + 1\<rparr>) = (Inr u, env')"
    and pr': "pr' = pr\<lparr>p_E := p_prevEnergy pr\<rparr>"
    by (auto simp: run_step_def Let_def split: sum.splits prod.splits)
  from restore_previous_state[OF rp] pr' show ?thesis by simp
qed

text \<open>
  C5: a pass of the loop of \<^verbatim>\<open>anneal\<close> that rejects its move leaves the working state
  equal to the last accepted snapshot and \<open>E\<close> equal to the last accepted energy, and
  neither snapshot nor energy has changed. At the head of every pass of a run the working
  state is the snapshot and \<open>E\<close> is its energy, so both are exactly what they were before
  the rejected move. The probe \<^verbatim>\<open>run\<close> of \<^verbatim>\<open>auto\<close> restores them in the same way.
\<close>

theorem rejection_round_trip:
  "(anneal_init P (Some p) env = (Inr r0, env0) \<and> loop_prefix k P r0 env0 = (Inr r, env1) \<and>
    move P (state (self env1)) (side (self env1)) = Inr (dE, s, x) \<and> 0 < dE \<and>
    exp (- dE / temperature p (l_Tfactor r) (l_step r + 1)) < rnd env1 (draws env1) \<and>
    anneal_step P r env1 = (Inr r', env') \<longrightarrow>
      state (self env') = state (self env1) \<and> l_E r' = l_E r \<and>
      state (self env') = l_prevState r \<and> l_E r' = l_prevEnergy r \<and>
      l_prevState r' = l_prevState r \<and> l_prevEnergy r' = l_prevEnergy r) \<and>
   (move P (state (self env)) (side (self env)) = Inr (d, s, x) \<and> energy P s x = Inr E \<and>
    0 < E - p_prevEnergy pr \<and> exp (- (E - p_prevEnergy pr) / T) < rnd env (draws env) \<and>
    run_step P T pr env = (Inr pr', env'') \<longrightarrow>
      state (self env'') = p_prevState pr \<and> p_E pr' = p_prevEnergy pr \<and>
      p_prevState pr' = p_prevState pr \<and> p_prevEnergy pr' = p_prevEnergy pr)"
proof -
  have 1: "state (self env') = state (self env1) \<and> l_E r' = l_E r \<and>
      state (self env') = l_prevState r \<and> l_E r' = l_prevEnergy r \<and>
      l_prevState r' = l_prevState r \<and> l_prevEnergy r' = l_prevEnergy r"
    if ai: "anneal_init P (Some p) env = (Inr r0, env0)"
      and lp: "loop_prefix k P r0 env0 = (Inr r, env1)"
      and mv: "move P (state (self env1)) (side (self env1)) = Inr (dE, s, x)"
      and pos: "0 < dE"
      and lt: "exp (- dE / temperature p (l_Tfactor r) (l_step r + 1)) < rnd env1 (draws env1)"
      and st: "anneal_step P r env1 = (Inr r', env')"
  proof -
    note H = loop_head[OF ai lp]
    from H lt have lt': "exp (- dE / temperature (params (self env1)) (l_Tfactor r) (l_step r + 1))
        < rnd env1 (draws env1)" by simp
    from anneal_step_rejects[OF st mv pos lt'] H show ?thesis by simp
  qed
  have 2: "state (self env'') = p_prevState pr \<and> p_E pr' = p_prevEnergy pr \<and>
      p_prevState pr' = p_prevState pr \<and> p_prevEnergy pr' = p_prevEnergy pr"
    if "move P (state (self env)) (side (self env)) = Inr (d, s, x)" "energy P s x = Inr E"
      "0 < E - p_prevEnergy pr" "exp (- (E - p_prevEnergy pr) / T) < rnd env (draws env)"
      "run_step P T pr env = (Inr pr', env'')"
    using run_step_rejects[OF that(5) that(1) that(2) that(3) that(4)] .
  from 1 2 show ?thesis by blast
qed

theorem rejection_round_trip_witness:
  "\<exists>r0 env0 r' env' pr' env''.
     anneal_init walk_full (Some (mk_params 1 1 1))
       (env_of (init_annealer (0::int) [True]) (\<lambda>n. 9 / 10) (\<lambda>n. 0)) = (Inr r0, env0) \<and>
     loop_prefix 0 walk_full r0 env0 = (Inr r0, env0) \<and>
     move walk_full (state (self env0)) (side (self env0)) = Inr (1, 1, []) \<and> (0::real) < 1 \<and>
     exp (- 1 / temperature (mk_params 1 1 1) (l_Tfactor r0) (l_step r0 + 1))
       < rnd env0 (draws env0) \<and>
     anneal_step walk_full r0 env0 = (Inr r', env') \<and>
     state (self env') = 0 \<and> l_E r' = 0 \<and>
     move walk_full (state (self (env_of (init_annealer (0::int) [True]) (\<lambda>n. 9 / 10) (\<lambda>n. 0))))
       (side (self (env_of (init_annealer (0::int) [True]) (\<lambda>n. 9 / 10) (\<lambda>n. 0))))
       = Inr (1, 1, []) \<and>
     energy walk_full 1 [] = Inr 1 \<and>
     run_step walk_full 1
       \<lparr>p_E = 0, p_prevState = 0, p_prevEnergy = 0, p_accepts = 0, p_improves = 0\<rparr>
       (env_of (init_annealer (0::int) [True]) (\<lambda>n. 9 / 10) (\<lambda>n. 0)) = (Inr pr', env'') \<and>
     state (self env'') = 0 \<and> p_E pr' = 0"
proof -
  let ?env = "env_of (init_annealer (0::int) [True]) (\<lambda>n. 9 / 10) (\<lambda>n. 0)"
  let ?p = "mk_params 1 1 1"
  let ?pr = "\<lparr>p_E = 0, p_prevState = (0::int), p_prevEnergy = 0, p_accepts = 0, p_improves = 0\<rparr>"
  note e = exp_minus_one_less
  have "\<exists>r0. fst (anneal_init walk_full (Some ?p) ?env) = Inr r0"
    by (simp add: eval_defs)
  then obtain r0 env0 where ai: "anneal_init walk_full (Some ?p) ?env = (Inr r0, env0)"
    by (cases "anneal_init walk_full (Some ?p) ?env") auto
  then have f0: "state (self env0) = 0" "side (self env0) = [True]" "l_step r0 = 0"
    "l_Tfactor r0 = 0" "rnd env0 = (\<lambda>n. 9 / 10)" "l_E r0 = 0"
    by (auto simp: eval_defs split: if_splits)
  have lp: "loop_prefix 0 walk_full r0 env0 = (Inr r0, env0)" by simp
  have mv0: "move walk_full (state (self env0)) (side (self env0)) = Inr (1, 1, [])"
    by (simp add: f0 eval_defs)
  have lt: "exp (- 1 / temperature ?p (l_Tfactor r0) (l_step r0 + 1)) < rnd env0 (draws env0)"
    using e by (simp add: f0 temperature_def mk_params_def)
  from ai e have "\<exists>r'. fst (anneal_step walk_full r0 env0) = Inr r'"
    by (auto simp: eval_defs split: if_splits)
  then obtain r' env' where st: "anneal_step walk_full r0 env0 = (Inr r', env')"
    by (cases "anneal_step walk_full r0 env0") auto
  have mv: "move walk_full (state (self ?env)) (side (self ?env)) = Inr (1, 1, [])"
    by (simp add: eval_defs)
  have en: "energy walk_full 1 [] = Inr 1" by (simp add: eval_defs)
  have lt2: "exp (- (1 - p_prevEnergy ?pr) / 1) < rnd ?env (draws ?env)"
    using e by (simp add: env_of_def)
  from e have "\<exists>pr'. fst (run_step walk_full 1 ?pr ?env) = Inr pr'"
    by (simp add: run_step_def eval_defs)
  then obtain pr' env'' where rs: "run_step walk_full 1 ?pr ?env = (Inr pr', env'')"
    by (cases "run_step walk_full 1 ?pr ?env") auto
  from rejection_round_trip[of walk_full ?p ?env r0 env0 0 r0 env0 1 1 "[]" r' env' 1 1 ?pr 1 pr' env'']
    ai lp mv0 lt st mv en lt2 rs f0
  have "state (self env') = 0 \<and> l_E r' = 0 \<and> state (self env'') = 0 \<and> p_E pr' = 0"
    by simp
  with ai lp mv0 lt st mv en rs show ?thesis
    by - (rule exI[of _ r0], rule exI[of _ env0], rule exI[of _ r'], rule exI[of _ env'],
          rule exI[of _ pr'], rule exI[of _ env''], simp)
qed

subsection \<open>The trace file\<close>

text \<open>
  C7, as stated: the trace file is closed on every exit path of \<^verbatim>\<open>anneal\<close>, also when
  a hook raises. \<^verbatim>\<open>anneal\<close> never closes the file it opens: here \<^verbatim>\<open>move\<close> raises in the
  first pass, the exception leaves \<^verbatim>\<open>anneal\<close>, and the file is still open.
\<close>

theorem trace_file_left_open_on_hook_failure:
  "fst (anneal walk (Some ((mk_params 1 1 1)\<lparr>output_file := ''trace.csv''\<rparr>))
          (env_of (init_annealer (0::int) []) (\<lambda>n. 0) (\<lambda>n. 0)))
     = Inl (HookError ''no direction left'') \<and>
   file_status (snd (anneal walk (Some ((mk_params 1 1 1)\<lparr>output_file := ''trace.csv''\<rparr>))
          (env_of (init_annealer (0::int) []) (\<lambda>n. 0) (\<lambda>n. 0))))
     = [(''trace.csv'', False)]"
  by (simp add: eval_defs file_status_def)

text \<open>
  C7, amended: when a trace output path is configured, \<^verbatim>\<open>anneal\<close> opens the trace file
  once, at the start of the run, and does not close it on any exit path: however
  \<^verbatim>\<open>anneal\<close> is left (return, configuration error, exception of a hook), exactly one
  file has been added to those opened before, it has the configured path, it is open, and
  no other file has been closed.
\<close>

theorem trace_file_opened_once_never_closed:
  "output_file p \<noteq> '''' \<longrightarrow>
     file_status (snd (anneal P (Some p) env)) = file_status env @ [(output_file p, False)]"
  using anneal_status[of P p env "fst (anneal P (Some p) env)" "snd (anneal P (Some p) env)"]
  by simp

theorem trace_file_opened_once_never_closed_witness:
  "output_file ((mk_params 1 1 1)\<lparr>output_file := ''trace.csv''\<rparr>) \<noteq> '''' \<and>
   fst (anneal walk_full (Some ((mk_params 1 1 1)\<lparr>output_file := ''trace.csv''\<rparr>))
          (env_of (init_annealer (3::int) [False]) (\<lambda>n. 0) (\<lambda>n. 0))) = Inr (Some 2, Some 4) \<and>
   file_status (snd (anneal walk_full (Some ((mk_params 1 1 1)\<lparr>output_file := ''trace.csv''\<rparr>))
          (env_of (init_annealer (3::int) [False]) (\<lambda>n. 0) (\<lambda>n. 0))))
     = [(''trace.csv'', False)]"
proof -
  have 1: "output_file ((mk_params 1 1 1)\<lparr>output_file := ''trace.csv''\<rparr>) \<noteq> ''''" by simp
  have 2: "file_status (env_of (init_annealer (3::int) [False]) (\<lambda>n. 0) (\<lambda>n. 0)) = []"
    by (simp add: file_status_def env_of_def)
  have 3: "fst (anneal walk_full (Some ((mk_params 1 1 1)\<lparr>output_file := ''trace.csv''\<rparr>))
          (env_of (init_annealer (3::int) [False]) (\<lambda>n. 0) (\<lambda>n. 0))) = Inr (Some 2, Some 4)"
    by (simp add: eval_defs)
  from trace_file_opened_once_never_closed
         [of "(mk_params 1 1 1)\<lparr>output_file := ''trace.csv''\<rparr>" walk_full
             "env_of (init_annealer (3::int) [False]) (\<lambda>n. 0) (\<lambda>n. 0)"] 1 2 3
  show ?thesis by simp
qed

subsection \<open>The temperature schedule\<close>

text \<open>
  C8, as stated: in every run with \<open>tmax, tmin > 0\<close> the temperature is \<open>tmin\<close> when
  \<^verbatim>\<open>step == steps\<close>. With \<^verbatim>\<open>steps = 0\<close> the loop is not entered, line 178 is never
  evaluated, and the run ends at \<^verbatim>\<open>step == steps == 0\<close> with the temperature \<open>tmax\<close>:
  here \<open>tmax = 2\<close> and \<open>tmin = 1\<close>.
\<close>

theorem schedule_without_steps_stays_at_tmax:
  "(case anneal_init walk (Some (mk_params 0 2 1))
           (env_of (init_annealer (0::int) []) (\<lambda>n. 0) (\<lambda>n. 0)) of
      (Inl e, env0) \<Rightarrow> False
    | (Inr r0, env0) \<Rightarrow>
        anneal_loop walk r0 env0 = (Inr r0, env0) \<and>
        l_step r0 = steps (mk_params 0 2 1) \<and> l_T r0 = 2 \<and> tmin (mk_params 0 2 1) = 1)"
  by (simp add: eval_defs)

text \<open>
  C8, amended: in every run with \<open>tmax, tmin > 0\<close> and at least one step, the temperature
  after any number of passes is \<open>tmax * (tmin / tmax) powr (step / steps)\<close>: it is \<open>tmax\<close>
  at step 0, \<open>tmin\<close> at \<^verbatim>\<open>step == steps\<close>, and falls by the constant factor
  \<open>(tmin / tmax) powr (1 / steps)\<close> from one step to the next. A loop that runs to its end
  ends at \<^verbatim>\<open>step == steps\<close> with the temperature \<open>tmin\<close>.
\<close>

theorem temperature_schedule:
  "0 < tmax p \<and> 0 < tmin p \<and> 1 \<le> steps p \<and>
   anneal_init P (Some p) env = (Inr r0, env0) \<longrightarrow>
     temperature p (l_Tfactor r0) 0 = tmax p \<and>
     temperature p (l_Tfactor r0) (steps p) = tmin p \<and>
     (loop_prefix k P r0 env0 = (Inr r, env1) \<longrightarrow>
        l_T r = tmax p * (tmin p / tmax p) powr (of_int (l_step r) / of_int (steps p)) \<and>
        (l_step r = 0 \<longrightarrow> l_T r = tmax p) \<and>
        (l_step r = steps p \<longrightarrow> l_T r = tmin p)) \<and>
     (anneal_loop P r0 env0 = (Inr r, env1) \<longrightarrow> l_step r = steps p \<and> l_T r = tmin p)"
proof (intro impI, elim conjE)
  assume hi: "0 < tmax p" and lo: "0 < tmin p" and n: "1 \<le> steps p"
    and ai: "anneal_init P (Some p) env = (Inr r0, env0)"
  from n have nz: "steps p \<noteq> 0" by simp
  from ai have tf: "l_Tfactor r0 = - ln (tmax p / tmin p)" by (rule anneal_init_Inr)
  note cf = schedule_closed_form[OF hi lo nz]
  have ratio: "tmax p * (tmin p / tmax p) = tmin p" using hi by simp
  have t0: "temperature p (l_Tfactor r0) 0 = tmax p"
    by (simp add: temperature_def)
  have tn: "temperature p (l_Tfactor r0) (steps p) = tmin p"
    using nz hi lo ratio by (simp add: tf cf)
  have pre: "l_T r = tmax p * (tmin p / tmax p) powr (of_int (l_step r) / of_int (steps p)) \<and>
        (l_step r = 0 \<longrightarrow> l_T r = tmax p) \<and>
        (l_step r = steps p \<longrightarrow> l_T r = tmin p) \<and> l_step r \<le> steps p \<and>
        params (self env1) = p"
    if lp: "loop_prefix k P r0 env0 = (Inr r, env1)" for k r env1
  proof -
    note H = loop_head[OF ai lp]
    from H have T: "l_T r = (if l_step r = 0 then tmax p
                  else temperature p (- ln (tmax p / tmin p)) (l_step r))" by simp
    have a: "l_T r = tmax p * (tmin p / tmax p) powr (of_int (l_step r) / of_int (steps p))"
    proof (cases "l_step r = 0")
      case True
      with T hi lo show ?thesis by simp
    next
      case False
      with T cf[of "l_step r"] show ?thesis by simp
    qed
    have b: "l_step r = steps p \<longrightarrow> l_T r = tmin p"
      using a nz hi lo by simp
    have c: "l_step r = 0 \<longrightarrow> l_T r = tmax p" using T by simp
    have d: "l_step r \<le> steps p" using H n by simp
    have e: "params (self env1) = p" using H by simp
    from a b c d e show ?thesis by blast
  qed
  have fin: "l_step r = steps p \<and> l_T r = tmin p"
    if al: "anneal_loop P r0 env0 = (Inr r, env1)"
  proof -
    from al have lp: "loop_prefix (nat (steps (params (self env0)) - l_step r0)) P r0 env0
        = (Inr r, env1)" by (simp add: loop_eval)
    from pre[OF lp] have le: "l_step r \<le> steps p" and pp: "params (self env1) = p"
      and at: "l_step r = steps p \<longrightarrow> l_T r = tmin p" by blast+
    from anneal_loop_exit[OF al] pp have "\<not> l_step r < steps p" by simp
    with le have "l_step r = steps p" by simp
    with at show ?thesis by blast
  qed
  from t0 tn pre fin
  show "temperature p (l_Tfactor r0) 0 = tmax p \<and>
     temperature p (l_Tfactor r0) (steps p) = tmin p \<and>
     (loop_prefix k P r0 env0 = (Inr r, env1) \<longrightarrow>
        l_T r = tmax p * (tmin p / tmax p) powr (of_int (l_step r) / of_int (steps p)) \<and>
        (l_step r = 0 \<longrightarrow> l_T r = tmax p) \<and>
        (l_step r = steps p \<longrightarrow> l_T r = tmin p)) \<and>
     (anneal_loop P r0 env0 = (Inr r, env1) \<longrightarrow> l_step r = steps p \<and> l_T r = tmin p)"
    by blast
qed

theorem temperature_schedule_witness:
  "0 < tmax (mk_params 2 4 1) \<and> 0 < tmin (mk_params 2 4 1) \<and> 1 \<le> steps (mk_params 2 4 1) \<and>
   (\<exists>r0 env0 r env1.
      anneal_init walk_full (Some (mk_params 2 4 1))
        (env_of (init_annealer (3::int) [False, False]) (\<lambda>n. 0) (\<lambda>n. 0)) = (Inr r0, env0) \<and>
      loop_prefix 2 walk_full r0 env0 = (Inr r, env1) \<and>
      anneal_loop walk_full r0 env0 = (Inr r, env1) \<and>
      l_step r = 2 \<and> l_T r = 1)"
proof -
  let ?env = "env_of (init_annealer (3::int) [False, False]) (\<lambda>n. 0) (\<lambda>n. 0)"
  let ?p = "mk_params 2 4 1"
  have h: "0 < tmax ?p \<and> 0 < tmin ?p \<and> 1 \<le> steps ?p" by (simp add: mk_params_def)
  have "\<exists>r0. fst (anneal_init walk_full (Some ?p) ?env) = Inr r0"
    by (simp add: eval_defs)
  then obtain r0 env0 where ai: "anneal_init walk_full (Some ?p) ?env = (Inr r0, env0)"
    by (cases "anneal_init walk_full (Some ?p) ?env") auto
  then have f0: "l_step r0 = 0" "params (self env0) = ?p"
    by (auto elim: anneal_init_Inr)
  from ai have "\<exists>r. fst (loop_prefix 2 walk_full r0 env0) = Inr r"
    by (auto simp: eval_defs eval_nat_numeral split: if_splits)
  then obtain r env1 where lp: "loop_prefix 2 walk_full r0 env0 = (Inr r, env1)"
    by (cases "loop_prefix 2 walk_full r0 env0") auto
  have "nat (steps (params (self env0)) - l_step r0) = 2" by (simp add: f0 mk_params_def)
  with lp have al: "anneal_loop walk_full r0 env0 = (Inr r, env1)" by (simp add: loop_eval)
  from temperature_schedule[of ?p walk_full ?env r0 env0 2 r env1] h ai lp al
  have "l_step r = 2 \<and> l_T r = 1" by (simp add: mk_params_def)
  with h ai lp al show ?thesis by blast
qed

subsection \<open>The estimator\<close>

text \<open>
  C3, as stated: whenever its searches end, \<^verbatim>\<open>auto\<close> returns \<open>tmax > tmin > 0\<close>. The
  search for \<open>tmin\<close> starts at \<open>tmax\<close> and lowers the temperature only while the last probe
  improved; when the probe at \<open>tmax\<close> shows no improvement, \<open>tmin\<close> is \<open>tmax\<close>. Here every
  move goes up, so no move improves: probes of one move, the first move rejected (random
  number \<open>9/10\<close>) and the second accepted (random number 0), a clock that advances by one
  second per reading. \<^verbatim>\<open>auto(1, 1)\<close> returns \<open>tmax = tmin = 1.5\<close>.
\<close>

theorem auto_may_return_equal_temperatures:
  "map_option fst
     (auto 3 walk_full 1 1
        (env_of (init_annealer (0::int) [True, True, True])
           (\<lambda>n. if n = 0 then 9 / 10 else 0) (\<lambda>n. real n)))
   = Some (Inr \<lparr>s_tmax = 3 / 2, s_tmin = 3 / 2, s_steps = 60, s_updates = 100\<rparr>)"
  using exp_minus_three_less
  by (simp add: auto_eval_defs eval_nat_numeral ceiling_log10_three_halves ceiling_log10_sixty)

text \<open>
  The dictionary is built from \<^verbatim>\<open>self.updates\<close>, an attribute that the base class
  never sets (the update count of the parameters is \<^verbatim>\<open>self.params.updates\<close>). On an
  object without it the same call ends in \<^verbatim>\<open>AttributeError\<close>.
\<close>

lemma auto_without_updates_attribute:
  "map_option fst
     (auto 3 (walk_full\<lparr>updates_attr := None\<rparr>) 1 1
        (env_of (init_annealer (0::int) [True, True, True])
           (\<lambda>n. if n = 0 then 9 / 10 else 0) (\<lambda>n. real n)))
   = Some (Inl AttributeError)"
  using exp_minus_three_less
  by (simp add: auto_eval_defs eval_nat_numeral ceiling_log10_three_halves ceiling_log10_sixty)

text \<open>
  C3, amended: whenever \<^verbatim>\<open>auto(minutes, steps)\<close> returns a dictionary, \<open>tmax\<close> is the
  temperature at which the search for the hot end stopped (its probe accepted at least
  98 percent), \<open>tmin\<close> the temperature at which the search for the cold end stopped (its
  probe improved nothing), and the step count is the duration
  \<^verbatim>\<open>round_figures(int(60.0 * minutes * step / elapsed), 2)\<close>; \<open>tmax \<ge> tmin > 0\<close>, the probes
  have a positive length, and the step count is a positive integer when \<open>minutes > 0\<close> and
  the clock advances. The result does not depend on the fuel: more fuel gives the same.
\<close>

theorem auto_schedule:
  "auto fuel P minutes n env = Some (Inr sch, env') \<longrightarrow>
     0 < s_tmin sch \<and> s_tmin sch \<le> s_tmax sch \<and> 0 < n \<and>
     (\<exists>a1 e5 a2 e6 a3 e7.
        search_loop fuel too_cold hotter P n a1 e5 = Some (Inr a2, e6) \<and>
        search_loop fuel improving cooler P n a2 e6 = Some (Inr a3, e7) \<and>
        s_tmax sch = a_T a2 \<and> s_tmin sch = a_T a3 \<and>
        98 / 100 \<le> a_acceptance a2 \<and> a_improvement a3 \<le> 0 \<and>
        round_figures_int
          (py_int (60 * minutes * of_int (a_step a3)
                     / (clock env (ticks e7) - clock env (ticks env)))) 2
          = Inr (s_steps sch)) \<and>
     (0 < minutes \<and> strict_mono (clock env) \<longrightarrow> 0 < s_steps sch) \<and>
     (\<forall>k. fuel \<le> k \<longrightarrow> auto k P minutes n env = Some (Inr sch, env'))"
proof
  assume au: "auto fuel P minutes n env = Some (Inr sch, env')"
  let ?t0 = "clock env (ticks env)"
  let ?env2 = "env\<lparr>ticks := ticks env + 1, self := (self env)\<lparr>start := Some ?t0\<rparr>\<rparr>"
  from au obtain E stp T env3 E1 acc imp env4 a1 env5 a2 env6 a3 env7 where
    sd: "seed_loop fuel P E 0 0 (update 0 0 E None None ?env2) = Some (Inr (stp, T), env3)"
    and rn: "run P T n env3 = (Inr (E1, acc, imp), env4)"
    and s1: "search_loop fuel too_hot cooler P n
           \<lparr>a_step = stp + n, a_T = T, a_E = E1, a_acceptance = acc, a_improvement = imp\<rparr> env4
          = Some (Inr a1, env5)"
    and s2: "search_loop fuel too_cold hotter P n a1 env5 = Some (Inr a2, env6)"
    and s3: "search_loop fuel improving cooler P n a2 env6 = Some (Inr a3, env7)"
    and ar: "auto_result P minutes (a_T a2) (a_T a3) (a_step a3) env7 = (Inr sch, env')"
    by (rule auto_Some_Inr)
  note U = update_sys[of 0 0 E None None ?env2]
  from seed_loop_result[OF sd] U
  have T: "0 < T" and stp: "0 < stp" and e3: "start (self env3) = Some ?t0"
    "clock env3 = clock env" "ticks env3 = ticks env + 2"
    by simp_all
  note R = run_sys[OF rn]
  have acc0: "n \<le> 0 \<Longrightarrow> acc = 0" using run_acceptance[OF rn] by simp
  have ok0: "search_ok ?t0 (clock env) (ticks env) n
       \<lparr>a_step = stp + n, a_T = T, a_E = E1, a_acceptance = acc, a_improvement = imp\<rparr> env4"
    using T stp e3 R acc0 by (simp add: search_ok_def)
  have cool: "\<And>T. 0 < T \<Longrightarrow> 0 < cooler T" by (simp add: cooler_def)
  have hot: "\<And>T. 0 < T \<Longrightarrow> 0 < hotter T" by (simp add: hotter_def)
  from search_loop_ok[OF s1 ok0 cool] have ok1: "search_ok ?t0 (clock env) (ticks env) n a1 env5"
    by simp
  from search_loop_ok[OF s2 ok1 hot] have ok2: "search_ok ?t0 (clock env) (ticks env) n a2 env6"
    and x2: "\<not> too_cold a2" by simp_all
  from search_loop_ok[OF s3 ok2 cool] have ok3: "search_ok ?t0 (clock env) (ticks env) n a3 env7"
    and x3: "\<not> improving a3" by simp_all
  from search_loop_cooler[OF s3 ok2] have le: "a_T a3 \<le> a_T a2" .
  from x2 have acc2: "98 / 100 \<le> a_acceptance a2" by (simp add: too_cold_def)
  from x3 have imp3: "a_improvement a3 \<le> 0" by (simp add: improving_def)
  from ok2 acc2 have n: "0 < n" by (auto simp: search_ok_def split: if_splits)
  from ok3 n have f3: "0 < a_T a3" "start (self env7) = Some ?t0" "clock env7 = clock env"
    "ticks env < ticks env7" "1 \<le> a_step a3"
    by (simp_all add: search_ok_def)
  from ar f3 have
    el: "clock env (ticks env7) - ?t0 \<noteq> 0"
    and du: "round_figures_int
        (py_int (60 * minutes * of_int (a_step a3) / (clock env (ticks env7) - ?t0))) 2
          = Inr (s_steps sch)"
    and tm: "s_tmax sch = a_T a2" "s_tmin sch = a_T a3"
    by (auto elim!: auto_result_Inr)
  have dpos: "0 < s_steps sch" if m: "0 < minutes" and sm: "strict_mono (clock env)"
  proof -
    from sm f3(4) have "?t0 < clock env (ticks env7)" by (simp add: strict_mono_def)
    then have e: "0 < clock env (ticks env7) - ?t0" by simp
    let ?v = "60 * minutes * of_int (a_step a3) / (clock env (ticks env7) - ?t0)"
    from m f3(5) e have "0 < ?v" by simp
    then have "0 \<le> py_int ?v" by (simp add: py_int_def)
    moreover from du have "py_int ?v \<noteq> 0" by (auto simp: round_figures_int_def split: if_splits)
    ultimately have "0 < py_int ?v" by simp
    from round_figures_int_pos[OF this du] show ?thesis .
  qed
  have more: "\<forall>k. fuel \<le> k \<longrightarrow> auto k P minutes n env = Some (Inr sch, env')"
    using auto_more_fuel[OF au] by blast
  from f3(1) le tm n s2 s3 acc2 imp3 du dpos more
  show "0 < s_tmin sch \<and> s_tmin sch \<le> s_tmax sch \<and> 0 < n \<and>
     (\<exists>a1 e5 a2 e6 a3 e7.
        search_loop fuel too_cold hotter P n a1 e5 = Some (Inr a2, e6) \<and>
        search_loop fuel improving cooler P n a2 e6 = Some (Inr a3, e7) \<and>
        s_tmax sch = a_T a2 \<and> s_tmin sch = a_T a3 \<and>
        98 / 100 \<le> a_acceptance a2 \<and> a_improvement a3 \<le> 0 \<and>
        round_figures_int
          (py_int (60 * minutes * of_int (a_step a3)
                     / (clock env (ticks e7) - clock env (ticks env)))) 2
          = Inr (s_steps sch)) \<and>
     (0 < minutes \<and> strict_mono (clock env) \<longrightarrow> 0 < s_steps sch) \<and>
     (\<forall>k. fuel \<le> k \<longrightarrow> auto k P minutes n env = Some (Inr sch, env'))"
    by (intro conjI exI[of _ a1] exI[of _ env5] exI[of _ a2] exI[of _ env6] exI[of _ a3]
        exI[of _ env7] impI) simp_all
qed

theorem auto_schedule_witness:
  "(0::real) < 1 \<and>
   strict_mono (clock (env_of (init_annealer (0::int) [True, True, True])
           (\<lambda>n. if n = 0 then 9 / 10 else 0) (\<lambda>n. real n))) \<and>
   (\<exists>env'. auto 3 walk_full 1 1
        (env_of (init_annealer (0::int) [True, True, True])
           (\<lambda>n. if n = 0 then 9 / 10 else 0) (\<lambda>n. real n))
      = Some (Inr \<lparr>s_tmax = 3 / 2, s_tmin = 3 / 2, s_steps = 60, s_updates = 100\<rparr>, env') \<and>
      auto 7 walk_full 1 1
        (env_of (init_annealer (0::int) [True, True, True])
           (\<lambda>n. if n = 0 then 9 / 10 else 0) (\<lambda>n. real n))
      = Some (Inr \<lparr>s_tmax = 3 / 2, s_tmin = 3 / 2, s_steps = 60, s_updates = 100\<rparr>, env'))"
proof -
  let ?env = "env_of (init_annealer (0::int) [True, True, True])
           (\<lambda>n. if n = 0 then 9 / 10 else 0) (\<lambda>n. real n)"
  let ?sch = "\<lparr>s_tmax = 3 / 2, s_tmin = 3 / 2, s_steps = 60, s_updates = 100\<rparr>"
  have sm: "strict_mono (clock ?env)" by (simp add: env_of_def strict_mono_def)
  have "map_option fst (auto 3 walk_full 1 1 ?env) = Some (Inr ?sch)"
    using exp_minus_three_less
    by (simp add: auto_eval_defs eval_nat_numeral ceiling_log10_three_halves ceiling_log10_sixty)
  then obtain env' where au: "auto 3 walk_full 1 1 ?env = Some (Inr ?sch, env')"
    by (cases "auto 3 walk_full 1 1 ?env") auto
  from auto_schedule[of 3 walk_full 1 1 ?env ?sch env'] au sm
  have "auto 7 walk_full 1 1 ?env = Some (Inr ?sch, env')" by simp
  with sm au show ?thesis by auto
qed

end
